theory Spec2Isabelle
  imports Main "HOL-Library.Word"
begin

section \<open>Common types\<close>

text \<open>
  Go's \<open>int\<close> and \<open>int64\<close> are 64-bit two's complement integers on the platforms the
  proxy is built for (amd64, arm64); \<open>+\<close> wraps. Go strings and byte slices are byte
  sequences, modelled as \<open>string\<close> (a list of 8-bit characters).
\<close>

type_synonym go_int = "64 word"

section \<open>Go's strings package, on bytes\<close>

text \<open>
  \<open>strings.HasPrefix\<close>, \<open>HasSuffix\<close>, \<open>TrimPrefix\<close>, \<open>TrimSuffix\<close>, \<open>Index\<close> (the byte
  index of the first occurrence, -1 when there is none) and \<open>ToLower\<close>. \<open>ToLower\<close> is
  \<open>strings.ToLower\<close> on strings of ASCII bytes (its first branch: the letters \<open>A\<close> to \<open>Z\<close>
  become \<open>a\<close> to \<open>z\<close>). On a string with a byte of 0x80 or more Go maps
  \<open>unicode.ToLower\<close> over the runes (U+212A, the Kelvin sign, becomes \<open>k\<close>); that branch
  is not modelled, and what is proved of the value of \<open>ToLower\<close> is proved for ASCII
  strings (\<open>isASCII\<close>). Header names that reach the proxy from the wire are HTTP tokens,
  which net/http accepts only in ASCII.
\<close>

definition HasPrefix :: "string \<Rightarrow> string \<Rightarrow> bool" where
  "HasPrefix s p = (take (length p) s = p)"

definition HasSuffix :: "string \<Rightarrow> string \<Rightarrow> bool" where
  "HasSuffix s suf = (length suf \<le> length s \<and> drop (length s - length suf) s = suf)"

definition TrimPrefix :: "string \<Rightarrow> string \<Rightarrow> string" where
  "TrimPrefix s p = (if HasPrefix s p then drop (length p) s else s)"

definition TrimSuffix :: "string \<Rightarrow> string \<Rightarrow> string" where
  "TrimSuffix s suf = (if HasSuffix s suf then take (length s - length suf) s else s)"

fun Index :: "string \<Rightarrow> string \<Rightarrow> int" where
  "Index [] sub = (if sub = [] then 0 else -1)"
| "Index (c # s) sub =
     (if HasPrefix (c # s) sub then 0
      else let i = Index s sub in if i < 0 then -1 else i + 1)"

definition toLowerByte :: "char \<Rightarrow> char" where
  "toLowerByte c =
     (if 65 \<le> (of_char c :: nat) \<and> (of_char c :: nat) \<le> 90
      then char_of (of_char c + (32 :: nat)) else c)"

definition ToLower :: "string \<Rightarrow> string" where
  "ToLower s = map toLowerByte s"


section \<open>API key obfuscation (obfuscate.go)\<close>

text \<open>
  \<open>extractPrefix\<close> walks the slice of known prefixes in order and returns at the first
  one the key starts with; \<open>matchPrefix\<close> is that loop. Without a match the prefix is the
  key up to and including its first hyphen, when that hyphen is not the first byte.
\<close>

definition prefixes :: "string list" where
  "prefixes = [''sk-ant-api03-'', ''sk-ant-'', ''sk-proj-'', ''sk-'']"

fun matchPrefix :: "string list \<Rightarrow> string \<Rightarrow> string option" where
  "matchPrefix [] key = None"
| "matchPrefix (p # ps) key =
     (if HasPrefix key p then Some (TrimSuffix p ''-'' @ ''-'') else matchPrefix ps key)"

definition extractPrefix :: "string \<Rightarrow> string" where
  "extractPrefix key =
     (case matchPrefix prefixes key of
        Some p \<Rightarrow> p
      | None \<Rightarrow>
          (let idx = Index key ''-''
           in if idx > 0 then take (nat (idx + 1)) key else []))"

definition ObfuscateAPIKey :: "string \<Rightarrow> string" where
  "ObfuscateAPIKey key =
     (if key = [] then []
      else
        let prefix = extractPrefix key;
            suffix = (if length key > 4 then drop (length key - 4) key else [])
        in prefix @ ''...'' @ suffix)"

definition isAPIKeyHeader :: "string \<Rightarrow> bool" where
  "isAPIKeyHeader name =
     (let lower = ToLower name in lower = ''x-api-key'' \<or> lower = ''authorization'')"

definition obfuscateHeaderValue :: "string \<Rightarrow> string" where
  "obfuscateHeaderValue v =
     (if HasPrefix v ''Bearer ''
      then ''Bearer '' @ ObfuscateAPIKey (TrimPrefix v ''Bearer '')
      else ObfuscateAPIKey v)"

text \<open>
  \<open>http.Header\<close> is \<open>map[string][]string\<close>. It is modelled as the list of its entries in
  the order in which a \<open>range\<close> loop visits them (any order: Go does not fix it); the keys
  of a Go map are distinct.
\<close>

type_synonym Header = "(string \<times> string list) list"

definition ObfuscateHeaders :: "Header \<Rightarrow> Header" where
  "ObfuscateHeaders headers =
     map (\<lambda>(key, vals).
            (key, map (\<lambda>v. if isAPIKeyHeader key then obfuscateHeaderValue v else v) vals))
         headers"









section \<open>Pattern state (session.go)\<close>

text \<open>
  The struct \<open>PatternState\<close> with the fields that session.go and the tests of
  event\_emission\_test.go read and write.
\<close>

record PatternState =
  TurnCount :: go_int
  LastToolName :: string
  ToolStreak :: go_int
  RetryCount :: go_int
  SessionToolCount :: go_int
  LastWasError :: bool
  PendingToolIDs :: "string \<rightharpoonup> string"

text \<open>
  \<open>ComputePatterns(state, firstToolName)\<close> mutates \<open>*state\<close> and returns \<open>isRetry\<close>;
  the model returns the updated state together with the result.
\<close>

definition ComputePatterns :: "PatternState \<Rightarrow> string \<Rightarrow> PatternState \<times> bool" where
  "ComputePatterns state firstToolName =
     (if firstToolName = [] then
        (state\<lparr>ToolStreak := 0, RetryCount := 0\<rparr>, False)
      else
        let isRetry = (firstToolName = LastToolName state \<and> LastWasError state);
            s1 = (if firstToolName = LastToolName state
                  then state\<lparr>ToolStreak := ToolStreak state + 1\<rparr>
                  else state\<lparr>ToolStreak := 1\<rparr>);
            s2 = (if isRetry
                  then s1\<lparr>RetryCount := RetryCount s1 + 1\<rparr>
                  else s1\<lparr>RetryCount := 0\<rparr>);
            s3 = s2\<lparr>LastToolName := firstToolName\<rparr>
        in (s3, isRetry))"

text \<open>The zero-value state that \<open>LoadPatternState\<close> returns for a new session.\<close>

definition defaultPatternState :: PatternState where
  "defaultPatternState =
     \<lparr>TurnCount = 0, LastToolName = [], ToolStreak = 0, RetryCount = 0,
      SessionToolCount = 0, LastWasError = False, PendingToolIDs = Map.empty\<rparr>"

section \<open>ObfuscateHeaders on the heap\<close>

text \<open>
  For the effect of \<open>ObfuscateHeaders\<close> on memory, header maps and string slices are
  objects of a store. A map object holds its entries (key and the address of the value
  slice) in the order a \<open>range\<close> loop visits them; \<open>make\<close> allocates at the next unused
  address. An address with no object reads as \<open>nil\<close> (no entries, length 0).
\<close>

type_synonym addr = nat

record heap =
  maps :: "addr \<rightharpoonup> (string \<times> addr) list"
  slices :: "addr \<rightharpoonup> string list"
  nxt :: addr

definition readMap :: "heap \<Rightarrow> addr \<Rightarrow> (string \<times> addr) list" where
  "readMap h a = (case maps h a of None \<Rightarrow> [] | Some m \<Rightarrow> m)"

definition readSlice :: "heap \<Rightarrow> addr \<Rightarrow> string list" where
  "readSlice h a = (case slices h a of None \<Rightarrow> [] | Some vs \<Rightarrow> vs)"

definition makeMap :: "heap \<Rightarrow> addr \<times> heap" where
  "makeMap h = (nxt h, h\<lparr>maps := (maps h)(nxt h \<mapsto> []), nxt := Suc (nxt h)\<rparr>)"

definition makeSlice :: "heap \<Rightarrow> nat \<Rightarrow> addr \<times> heap" where
  "makeSlice h n = (nxt h, h\<lparr>slices := (slices h)(nxt h \<mapsto> replicate n []), nxt := Suc (nxt h)\<rparr>)"

definition storeIndex :: "heap \<Rightarrow> addr \<Rightarrow> nat \<Rightarrow> string \<Rightarrow> heap" where
  "storeIndex h a i v = h\<lparr>slices := (slices h)(a \<mapsto> (readSlice h a)[i := v])\<rparr>"

fun assign :: "(string \<times> addr) list \<Rightarrow> string \<Rightarrow> addr \<Rightarrow> (string \<times> addr) list" where
  "assign [] k a = [(k, a)]"
| "assign ((k', a') # m) k a = (if k' = k then (k, a) # m else (k', a') # assign m k a)"

definition storeKey :: "heap \<Rightarrow> addr \<Rightarrow> string \<Rightarrow> addr \<Rightarrow> heap" where
  "storeKey h a k va = h\<lparr>maps := (maps h)(a \<mapsto> assign (readMap h a) k va)\<rparr>"

fun fillValues :: "heap \<Rightarrow> addr \<Rightarrow> string \<Rightarrow> nat \<Rightarrow> string list \<Rightarrow> heap" where
  "fillValues h newValues key i [] = h"
| "fillValues h newValues key i (v # vs) =
     fillValues
       (storeIndex h newValues i (if isAPIKeyHeader key then obfuscateHeaderValue v else v))
       newValues key (Suc i) vs"

fun copyEntries :: "heap \<Rightarrow> addr \<Rightarrow> (string \<times> addr) list \<Rightarrow> heap" where
  "copyEntries h result [] = h"
| "copyEntries h result ((key, vals) # rest) =
     (let (newValues, h1) = makeSlice h (length (readSlice h vals));
          h2 = fillValues h1 newValues key 0 (readSlice h vals);
          h3 = storeKey h2 result key newValues
      in copyEntries h3 result rest)"

definition ObfuscateHeaders_heap :: "heap \<Rightarrow> addr \<Rightarrow> addr \<times> heap" where
  "ObfuscateHeaders_heap h headers =
     (let (result, h1) = makeMap h;
          h2 = copyEntries h1 result (readMap h headers)
      in (result, h2))"

definition headerAt :: "heap \<Rightarrow> addr \<Rightarrow> Header" where
  "headerAt h a = map (\<lambda>(k, va). (k, readSlice h va)) (readMap h a)"

definition allocated :: "heap \<Rightarrow> bool" where
  "allocated h = ((\<forall>a. a \<in> dom (maps h) \<longrightarrow> a < nxt h) \<and> (\<forall>a. a \<in> dom (slices h) \<longrightarrow> a < nxt h))"

text \<open>
  A header map as Go holds it: every object lies below the allocation pointer, the map
  exists, its keys are distinct and its values are slices of the store.
\<close>

definition wellFormed :: "heap \<Rightarrow> addr \<Rightarrow> bool" where
  "wellFormed h headers =
     (allocated h \<and> headers \<in> dom (maps h) \<and> distinct (map fst (readMap h headers)) \<and>
      (\<forall>(k, va) \<in> set (readMap h headers). va \<in> dom (slices h)))"

text \<open>The request headers of the obfuscation test, as a store.\<close>

definition exampleHeap :: heap where
  "exampleHeap =
     \<lparr>maps = [0 \<mapsto> [(''X-Api-Key'', 1), (''Content-Type'', 2)]],
      slices = [1 \<mapsto> [''sk-ant-REDACTED''], 2 \<mapsto> [''application/json'']],
      nxt = 3\<rparr>"


section \<open>net/http headers\<close>

text \<open>
  A header map under construction is a map from keys to value lists; a missing key reads
  as the empty slice, as \<open>h[key]\<close> does in Go. \<open>Header.Add\<close>, \<open>Set\<close>, \<open>Del\<close> and \<open>Get\<close>
  canonicalise the key first (\<open>textproto.CanonicalMIMEHeaderKey\<close>: the first letter and
  every letter after a hyphen in upper case, the others in lower case; a key with a
  byte that is not a token character is left as it is).
\<close>

type_synonym HeaderMap = "string \<rightharpoonup> string list"

definition isLowerByte :: "char \<Rightarrow> bool" where
  "isLowerByte c = (97 \<le> (of_char c :: nat) \<and> (of_char c :: nat) \<le> 122)"

definition isUpperByte :: "char \<Rightarrow> bool" where
  "isUpperByte c = (65 \<le> (of_char c :: nat) \<and> (of_char c :: nat) \<le> 90)"

definition isDigitByte :: "char \<Rightarrow> bool" where
  "isDigitByte c = (48 \<le> (of_char c :: nat) \<and> (of_char c :: nat) \<le> 57)"

definition toUpperByte :: "char \<Rightarrow> char" where
  "toUpperByte c = (if isLowerByte c then char_of (of_char c - (32 :: nat)) else c)"

definition validHeaderFieldByte :: "char \<Rightarrow> bool" where
  "validHeaderFieldByte c =
     (isLowerByte c \<or> isUpperByte c \<or> isDigitByte c \<or>
      c \<in> set ''!#$%&*+-.^_|~'' \<or> c = CHR 0x27 \<or> c = CHR 0x60)"

fun canonicalLoop :: "bool \<Rightarrow> string \<Rightarrow> string" where
  "canonicalLoop upper [] = []"
| "canonicalLoop upper (c # s) =
     (let c' = (if upper \<and> isLowerByte c then toUpperByte c
                else if \<not> upper \<and> isUpperByte c then toLowerByte c
                else c)
      in c' # canonicalLoop (c' = CHR ''-'') s)"

definition CanonicalMIMEHeaderKey :: "string \<Rightarrow> string" where
  "CanonicalMIMEHeaderKey s =
     (if list_all validHeaderFieldByte s then canonicalLoop True s else s)"

definition lookupValues :: "HeaderMap \<Rightarrow> string \<Rightarrow> string list" where
  "lookupValues h key = (case h key of None \<Rightarrow> [] | Some vs \<Rightarrow> vs)"

definition Header_Add :: "HeaderMap \<Rightarrow> string \<Rightarrow> string \<Rightarrow> HeaderMap" where
  "Header_Add h key v =
     (let k = CanonicalMIMEHeaderKey key in h(k \<mapsto> lookupValues h k @ [v]))"

definition Header_Set :: "HeaderMap \<Rightarrow> string \<Rightarrow> string \<Rightarrow> HeaderMap" where
  "Header_Set h key v = h(CanonicalMIMEHeaderKey key \<mapsto> [v])"

definition Header_Del :: "HeaderMap \<Rightarrow> string \<Rightarrow> HeaderMap" where
  "Header_Del h key = h(CanonicalMIMEHeaderKey key := None)"

definition Header_Get :: "HeaderMap \<Rightarrow> string \<Rightarrow> string" where
  "Header_Get h key =
     (case lookupValues h (CanonicalMIMEHeaderKey key) of [] \<Rightarrow> [] | v # _ \<Rightarrow> v)"

text \<open>
  \<open>copyHeaders(dst, src)\<close> of proxy.go: for every key of \<open>src\<close> and every value of that
  key, \<open>dst.Add(key, value)\<close>. No key is left out.
\<close>

fun addValues :: "HeaderMap \<Rightarrow> string \<Rightarrow> string list \<Rightarrow> HeaderMap" where
  "addValues dst key [] = dst"
| "addValues dst key (v # vs) = addValues (Header_Add dst key v) key vs"

fun copyHeaders :: "HeaderMap \<Rightarrow> Header \<Rightarrow> HeaderMap" where
  "copyHeaders dst [] = dst"
| "copyHeaders dst ((key, vals) # rest) = copyHeaders (addValues dst key vals) rest"

text \<open>
  Headers as \<open>net/http\<close> parses them from the wire: canonical, distinct keys.
\<close>

definition parsedHeader :: "Header \<Rightarrow> bool" where
  "parsedHeader h =
     (distinct (map fst h) \<and> list_all (\<lambda>(key, vals). CanonicalMIMEHeaderKey key = key) h)"

text \<open>The hop-by-hop headers the specification lists, as canonical keys.\<close>

definition hopByHop :: "string list" where
  "hopByHop = [''Connection'', ''Keep-Alive'', ''Proxy-Authenticate'', ''Proxy-Authorization'',
               ''Te'', ''Trailer'', ''Transfer-Encoding'', ''Upgrade'']"

section \<open>The forwarder (proxy.go, streaming.go)\<close>

text \<open>
  What the handler is given: the client's request (its body already on the wire, with
  the error that reading it may raise), and what \<open>http.Client.Do\<close> answers. A response
  body is the bytes the upstream delivers and the error that ends them, if any
  (\<open>None\<close>: a clean end of stream). Durations are not modelled.
\<close>

record Request =
  Method :: string
  Path :: string
  RawQuery :: string
  ReqHeader :: Header
  ReqBody :: string
  ReqBodyErr :: "string option"

record Response =
  StatusCode :: go_int
  RespHeader :: Header
  RespBody :: string
  RespBodyErr :: "string option"

record UpstreamRequest =
  UMethod :: string
  UURL :: string
  UHeader :: HeaderMap
  UHost :: string
  UBody :: string

text \<open>
  The \<open>http.ResponseWriter\<close> as the client sees it: the header map, the status line once
  written, and the writes and flushes in order. \<open>WriteHeader\<close> takes effect once; \<open>Write\<close>
  sends status 200 first when no status has been written.
\<close>

datatype wevent = Write string | Flush

record ResponseWriter =
  WHeader :: HeaderMap
  WStatus :: "go_int option"
  WEvents :: "wevent list"

definition newResponseWriter :: ResponseWriter where
  "newResponseWriter = \<lparr>WHeader = Map.empty, WStatus = None, WEvents = []\<rparr>"

definition WriteHeader :: "ResponseWriter \<Rightarrow> go_int \<Rightarrow> ResponseWriter" where
  "WriteHeader w code = (if WStatus w = None then w\<lparr>WStatus := Some code\<rparr> else w)"

definition WriteBytes :: "ResponseWriter \<Rightarrow> string \<Rightarrow> ResponseWriter" where
  "WriteBytes w b =
     (let w1 = WriteHeader w 200 in w1\<lparr>WEvents := WEvents w1 @ [Write b]\<rparr>)"

definition FlushWriter :: "ResponseWriter \<Rightarrow> ResponseWriter" where
  "FlushWriter w = w\<lparr>WEvents := WEvents w @ [Flush]\<rparr>"

text \<open>\<open>http.Error\<close>: a plain-text reply with the given status.\<close>

definition http_Error :: "ResponseWriter \<Rightarrow> string \<Rightarrow> go_int \<Rightarrow> ResponseWriter" where
  "http_Error w msg code =
     (let h1 = Header_Del (WHeader w) ''Content-Length'';
          h2 = Header_Set h1 ''Content-Type'' ''text/plain; charset=utf-8'';
          h3 = Header_Set h2 ''X-Content-Type-Options'' ''nosniff'';
          w1 = WriteHeader (w\<lparr>WHeader := h3\<rparr>) code
      in WriteBytes w1 (msg @ [CHR 0x0A]))"

text \<open>The bytes a client has received: the writes, concatenated.\<close>

fun received :: "wevent list \<Rightarrow> string" where
  "received [] = []"
| "received (Write b # es) = b @ received es"
| "received (Flush # es) = received es"

definition isLocalhost :: "string \<Rightarrow> bool" where
  "isLocalhost host = (HasPrefix host ''127.0.0.1'' \<or> HasPrefix host ''localhost'')"

text \<open>
  Lines 65 to 99 of \<open>ServeHTTP\<close>: the upstream request. \<open>http.NewRequestWithContext\<close>
  starts from an empty header map.
\<close>

definition buildUpstreamRequest :: "Request \<Rightarrow> string \<Rightarrow> string \<Rightarrow> UpstreamRequest" where
  "buildUpstreamRequest r upstream path =
     (let scheme = (if isLocalhost upstream then ''http'' else ''https'');
          url0 = scheme @ ''://'' @ upstream @ path;
          upstreamURL = (if RawQuery r \<noteq> [] then url0 @ ''?'' @ RawQuery r else url0)
      in \<lparr>UMethod = Method r, UURL = upstreamURL,
          UHeader = copyHeaders Map.empty (ReqHeader r),
          UHost = upstream, UBody = ReqBody r\<rparr>)"

text \<open>
  \<open>Proxy.nextSeq\<close>: the sequence number of the session's next request, from the map
  \<open>seqNums\<close> (a missing key reads as 0).
\<close>

record Proxy =
  seqNums :: "string \<rightharpoonup> go_int"
  hasLogger :: bool

definition NewProxy :: Proxy where
  "NewProxy = \<lparr>seqNums = Map.empty, hasLogger = False\<rparr>"

definition NewProxyWithLogger :: Proxy where
  "NewProxyWithLogger = \<lparr>seqNums = Map.empty, hasLogger = True\<rparr>"

definition nextSeq :: "Proxy \<Rightarrow> string \<Rightarrow> go_int \<times> Proxy" where
  "nextSeq p sessionID =
     (let seq = (case seqNums p sessionID of None \<Rightarrow> 0 | Some n \<Rightarrow> n)
      in (seq, p\<lparr>seqNums := (seqNums p)(sessionID \<mapsto> seq + 1)\<rparr>))"

text \<open>
  The calls the handler makes on the logger, with their arguments (the session, the
  provider, the sequence number and the payload).
\<close>

datatype logcall =
    SessionStartCall string string string
  | RequestCall string string go_int string string Header string
  | ResponseCall string string go_int go_int Header string
  | StreamResponseCall string string go_int go_int Header "string list"

text \<open>
  What the handler does not decide: the result of \<open>ParseProxyURL\<close> (an error message, or
  provider, upstream host and remaining path), whether \<open>http.NewRequestWithContext\<close>
  fails, the session identifier that \<open>generateSessionID\<close> draws from the clock and the
  random source, and what \<open>p.client.Do\<close> hands back for a request (\<open>transport\<close>).
\<close>

record Env =
  parsed :: "string + (string \<times> string \<times> string)"
  newRequestErr :: "string option"
  generatedID :: string
  transport :: "UpstreamRequest \<Rightarrow> string + Response"

record Outcome =
  proxy :: Proxy
  writer :: ResponseWriter
  sent :: "UpstreamRequest option"
  logged :: "logcall list"

definition ServeHTTP :: "Env \<Rightarrow> Proxy \<Rightarrow> ResponseWriter \<Rightarrow> Request \<Rightarrow> Outcome" where
  "ServeHTTP env p w r =
     (case parsed env of
        Inl err \<Rightarrow>
          \<lparr>proxy = p, writer = http_Error w err 400, sent = None, logged = []\<rparr>
      | Inr (provider, upstream, path) \<Rightarrow>
          (case ReqBodyErr r of
             Some e \<Rightarrow>
               \<lparr>proxy = p, writer = http_Error w (''failed to read request body: '' @ e) 500,
                sent = None, logged = []\<rparr>
           | None \<Rightarrow>
               (case newRequestErr env of
                  Some e \<Rightarrow>
                    \<lparr>proxy = p, writer = http_Error w (''failed to create request: '' @ e) 500,
                     sent = None, logged = []\<rparr>
                | None \<Rightarrow>
                    (let proxyReq = buildUpstreamRequest r upstream path;
                         sessionID = generatedID env;
                         (seq, p1) = (if hasLogger p then nextSeq p sessionID else (0, p));
                         log1 = (if hasLogger p
                                 then [SessionStartCall sessionID provider upstream,
                                       RequestCall sessionID provider seq (Method r) path
                                         (ReqHeader r) (ReqBody r)]
                                 else [])
                     in case transport env proxyReq of
                          Inl e \<Rightarrow>
                            \<lparr>proxy = p1,
                             writer = http_Error w (''upstream request failed: '' @ e) 502,
                             sent = Some proxyReq, logged = log1\<rparr>
                        | Inr resp \<Rightarrow>
                            (case RespBodyErr resp of
                               Some e \<Rightarrow>
                                 \<lparr>proxy = p1,
                                  writer = http_Error w
                                    (''failed to read response body: '' @ e) 502,
                                  sent = Some proxyReq, logged = log1\<rparr>
                             | None \<Rightarrow>
                                 (let log2 = (if hasLogger p
                                              then log1 @ [ResponseCall sessionID provider seq
                                                (StatusCode resp) (RespHeader resp) (RespBody resp)]
                                              else log1);
                                      w1 = w\<lparr>WHeader := copyHeaders (WHeader w) (RespHeader resp)\<rparr>;
                                      w2 = WriteHeader w1 (StatusCode resp);
                                      w3 = WriteBytes w2 (RespBody resp)
                                  in \<lparr>proxy = p1, writer = w3, sent = Some proxyReq,
                                      logged = log2\<rparr>))))))"

text \<open>
  streaming.go, as the implementation plan gives it: \<open>isStreamingResponse\<close> and
  \<open>streamResponse\<close>, which writes the status and the headers and then forwards the body
  line by line. The \<open>ServeHTTP\<close> above does not call them.
  \<open>bufio.Reader.ReadBytes(delim)\<close> returns the bytes up to and including the first
  delimiter, or all remaining bytes and an error when there is none.
\<close>

fun ReadBytes :: "char \<Rightarrow> string \<Rightarrow> string \<times> string \<times> bool" where
  "ReadBytes delim [] = ([], [], False)"
| "ReadBytes delim (c # s) =
     (if c = delim then ([c], s, True)
      else case ReadBytes delim s of (line, rest, found) \<Rightarrow> (c # line, rest, found))"

definition isStreamingResponse :: "Response \<Rightarrow> bool" where
  "isStreamingResponse resp =
     HasPrefix (Header_Get (map_of (RespHeader resp)) ''Content-Type'') ''text/event-stream''"


lemma ReadBytes_shorter: "ReadBytes d s = (line, rest, True) \<Longrightarrow> length rest < length s"
  by (induction s arbitrary: line) (auto split: if_splits prod.splits)

function streamLines :: "ResponseWriter \<Rightarrow> string list \<Rightarrow> string \<Rightarrow> ResponseWriter \<times> string list" where
  "streamLines sw chunks body =
     (case ReadBytes (CHR 0x0A) body of
        (line, rest, found) \<Rightarrow>
          (let (sw1, chunks1) =
                 (if line \<noteq> [] then (FlushWriter (WriteBytes sw line), chunks @ [line])
                  else (sw, chunks))
           in if found then streamLines sw1 chunks1 rest else (sw1, chunks1)))"
  by pat_completeness auto
termination
  by (relation "measure (\<lambda>(sw, chunks, body). length body)") (auto dest: ReadBytes_shorter [OF sym])

declare streamLines.simps [simp del]

definition streamResponse ::
  "ResponseWriter \<Rightarrow> Response \<Rightarrow> bool \<Rightarrow> string \<Rightarrow> string \<Rightarrow> go_int
     \<Rightarrow> ResponseWriter \<times> logcall list \<times> string option" where
  "streamResponse w resp haveLogger sessionID provider seq =
     (let w1 = w\<lparr>WHeader := copyHeaders (WHeader w) (RespHeader resp)\<rparr>;
          w2 = WriteHeader w1 (StatusCode resp);
          (w3, chunks) = streamLines w2 [] (RespBody resp)
      in case RespBodyErr resp of
           Some err \<Rightarrow> (w3, [], Some err)
         | None \<Rightarrow>
             (w3,
              if haveLogger
              then [StreamResponseCall sessionID provider seq (StatusCode resp) (RespHeader resp) chunks]
              else [],
              None))"


text \<open>The lines of a byte sequence: each ends with its line feed, the last one may not.\<close>

fun splitLines :: "string \<Rightarrow> string list" where
  "splitLines [] = []"
| "splitLines (c # s) =
     (if c = CHR 0x0A then [c] # splitLines s
      else case splitLines s of [] \<Rightarrow> [[c]] | l # ls \<Rightarrow> (c # l) # ls)"

definition lineEvents :: "string list \<Rightarrow> wevent list" where
  "lineEvents ls = concat (map (\<lambda>l. [Write l, Flush]) ls)"

definition sameHeaders :: "HeaderMap \<Rightarrow> Header \<Rightarrow> bool" where
  "sameHeaders h src = (\<forall>k. lookupValues h k = lookupValues (map_of src) k)"

text \<open>
  A streamed answer of four lines, its request, and an upstream that gives this answer.
\<close>

definition exampleResponse :: Response where
  "exampleResponse =
     \<lparr>StatusCode = 200, RespHeader = [(''Content-Type'', [''text/event-stream''])],
      RespBody = ''event: ping'' @ [CHR 0x0A] @ ''data: {}'' @ [CHR 0x0A, CHR 0x0A] @ ''data: [DONE]'',
      RespBodyErr = None\<rparr>"

definition exampleRequest :: Request where
  "exampleRequest =
     \<lparr>Method = ''POST'', Path = ''/anthropic/api.anthropic.com/v1/messages'', RawQuery = [],
      ReqHeader = [(''Content-Type'', [''application/json'']),
                   (''Proxy-Authorization'', [''Basic dXNlcjpwYXNz'']),
                   (''Connection'', [''keep-alive''])],
      ReqBody = ''{}'', ReqBodyErr = None\<rparr>"

definition exampleEnv :: Env where
  "exampleEnv =
     \<lparr>parsed = Inr (''anthropic'', ''api.anthropic.com'', ''/v1/messages''),
      newRequestErr = None, generatedID = ''20260113-150405-a1b2c3d4'',
      transport = (\<lambda>u. Inr exampleResponse)\<rparr>"

text \<open>
  What \<open>Do\<close> hands back, for the client \<open>&http.Client{}\<close> of \<open>NewProxy\<close>: net/http's
  default transport, whose \<open>DisableCompression\<close> is false. When the request has neither
  an \<open>Accept-Encoding\<close> nor a \<open>Range\<close> header and is not a \<open>HEAD\<close> request, the
  transport sends \<open>Accept-Encoding: gzip\<close> of its own; when the upstream then answers
  with \<open>Content-Encoding: gzip\<close>, the transport deletes the \<open>Content-Encoding\<close> and
  \<open>Content-Length\<close> headers of the response and hands back a body that reads as the
  decompressed bytes. \<open>upstream\<close> is the answer of the upstream to what is sent to it,
  and \<open>gunzip\<close> is what a \<open>compress/gzip\<close> reader delivers for a byte sequence (the
  bytes, and the error that ends them, if any). This is for a response that has a body;
  a response with \<open>Content-Length: 0\<close>, which the transport leaves as it is, is not
  modelled apart.
\<close>

definition defaultTransport ::
  "(string \<Rightarrow> string \<times> string option) \<Rightarrow> (UpstreamRequest \<Rightarrow> string + Response)
     \<Rightarrow> UpstreamRequest \<Rightarrow> string + Response" where
  "defaultTransport gunzip upstream req =
     (let requestedGzip = (Header_Get (UHeader req) ''Accept-Encoding'' = [] \<and>
                           Header_Get (UHeader req) ''Range'' = [] \<and> UMethod req \<noteq> ''HEAD'');
          onWire = (if requestedGzip
                    then req\<lparr>UHeader := Header_Set (UHeader req) ''Accept-Encoding'' ''gzip''\<rparr>
                    else req)
      in case upstream onWire of
           Inl err \<Rightarrow> Inl err
         | Inr resp \<Rightarrow>
             if requestedGzip \<and>
                ToLower (Header_Get (map_of (RespHeader resp)) ''Content-Encoding'') = ''gzip''
             then (case gunzip (RespBody resp) of
                     (plain, err) \<Rightarrow>
                       Inr (resp\<lparr>RespHeader :=
                                   filter (\<lambda>(key, vals). key \<noteq> ''Content-Encoding'' \<and>
                                                        key \<noteq> ''Content-Length'')
                                     (RespHeader resp),
                                 RespBody := plain,
                                 RespBodyErr := (case err of
                                                   Some e \<Rightarrow> Some e
                                                 | None \<Rightarrow> RespBodyErr resp)\<rparr>))
             else Inr resp)"

text \<open>
  An upstream that answers with the gzip encoding of \<open>hello, hello, hello\<close> (29 bytes),
  when it is asked for gzip.
\<close>

definition gzipBody :: string where
  "gzipBody =
     [CHR 0x1F, CHR 0x8B, CHR 0x08, CHR 0x00, CHR 0x00, CHR 0x00, CHR 0x00, CHR 0x00, CHR 0x02,
      CHR 0x03, CHR 0xCB, CHR 0x48, CHR 0xCD, CHR 0xC9, CHR 0xC9, CHR 0xD7, CHR 0x51, CHR 0xC8,
      CHR 0x40, CHR 0xA2, CHR 0x00, CHR 0x9F, CHR 0xA1, CHR 0xCA, CHR 0x09, CHR 0x13, CHR 0x00,
      CHR 0x00, CHR 0x00]"

definition gzipResponse :: Response where
  "gzipResponse =
     \<lparr>StatusCode = 200,
      RespHeader = [(''Content-Type'', [''text/plain'']), (''Content-Encoding'', [''gzip'']),
                    (''Content-Length'', [''29''])],
      RespBody = gzipBody, RespBodyErr = None\<rparr>"

definition gzipUpstream :: "UpstreamRequest \<Rightarrow> string + Response" where
  "gzipUpstream req =
     (if Header_Get (UHeader req) ''Accept-Encoding'' = ''gzip'' then Inr gzipResponse
      else Inr \<lparr>StatusCode = 200,
                RespHeader = [(''Content-Type'', [''text/plain'']), (''Content-Length'', [''19''])],
                RespBody = ''hello, hello, hello'', RespBodyErr = None\<rparr>)"

definition gzipEnv :: Env where
  "gzipEnv =
     \<lparr>parsed = Inr (''anthropic'', ''api.anthropic.com'', ''/v1/messages''),
      newRequestErr = None, generatedID = ''20260113-150405-a1b2c3d4'',
      transport = defaultTransport
        (\<lambda>b. if b = gzipBody then (''hello, hello, hello'', None)
              else ([], Some ''gzip: invalid header''))
        gzipUpstream\<rparr>"

section \<open>The Loki exporter (loki\_exporter.go)\<close>

text \<open>
  A log entry is a \<open>map[string]interface{}\<close>. Its values are modelled by the shapes the
  proxy stores in it; \<open>JUnsupported\<close> stands for a Go value that \<open>json.Marshal\<close> rejects
  (a NaN or infinite float, a channel, a function). A map is the list of its entries;
  its keys are distinct.
\<close>

datatype jvalue =
    JString string
  | JInt go_int
  | JBool bool
  | JNull
  | JList "jvalue list"
  | JMap "(string \<times> jvalue) list"
  | JUnsupported

type_synonym Entry = "(string \<times> jvalue) list"

text \<open>\<open>json.Marshal\<close> returns an error exactly when the value holds an unsupported one.\<close>

fun marshalable :: "jvalue \<Rightarrow> bool" where
  "marshalable (JString s) = True"
| "marshalable (JInt n) = True"
| "marshalable (JBool b) = True"
| "marshalable JNull = True"
| "marshalable (JList vs) = list_all marshalable vs"
| "marshalable (JMap kvs) = list_all (\<lambda>kv. marshalable (snd kv)) kvs"
| "marshalable JUnsupported = False"

text \<open>
  The queued entry (the struct \<open>lokiEntry\<close>; its fields carry the prefix \<open>le\<close> here).
  A point in time is its Unix time in nanoseconds. The configuration after
  \<open>NewLokiExporter\<close> has applied its defaults; waiting times are not modelled.
\<close>

type_synonym time = int

record LokiExporterConfig =
  URL :: string
  BatchSize :: int
  RetryMax :: int
  BufferSize :: int
  Environment :: string

record lokiEntry =
  leEntry :: Entry
  leProvider :: string
  leTimestamp :: time
  leLogType :: string
  leMachine :: string

text \<open>
  The exporter: the buffered channel \<open>entryChan\<close> (of capacity \<open>BufferSize\<close>), the batch
  that the worker \<open>run\<close> holds, whether \<open>closeChan\<close> has been closed (\<open>closeOnce\<close> has
  run), whether the worker has left its loop (\<open>closedChan\<close> is closed), the four counters,
  and the number of HTTP posts made so far.
\<close>

record LokiExporter =
  config :: LokiExporterConfig
  entryChan :: "lokiEntry list"
  batch :: "lokiEntry list"
  closeCalled :: bool
  workerDone :: bool
  entriesSent :: go_int
  entriesFailed :: go_int
  entriesDropped :: go_int
  batchesSent :: go_int
  posts :: nat

definition NewLokiExporter :: "LokiExporterConfig \<Rightarrow> string + LokiExporter" where
  "NewLokiExporter cfg =
     (if URL cfg = [] then Inl ''LokiExporter: URL is required''
      else
        let cfg1 = (if BatchSize cfg \<le> 0 then cfg\<lparr>BatchSize := 1000\<rparr> else cfg);
            cfg2 = (if RetryMax cfg1 \<le> 0 then cfg1\<lparr>RetryMax := 5\<rparr> else cfg1);
            cfg3 = (if BufferSize cfg2 \<le> 0 then cfg2\<lparr>BufferSize := 10000\<rparr> else cfg2)
        in Inr \<lparr>config = cfg3, entryChan = [], batch = [], closeCalled = False,
                workerDone = False,
                entriesSent = 0, entriesFailed = 0, entriesDropped = 0, batchesSent = 0,
                posts = 0\<rparr>)"

text \<open>
  \<open>Push\<close>. \<open>parseTime\<close> is \<open>time.Parse(time.RFC3339Nano, \<cdot>)\<close> and \<open>now\<close> the value of
  \<open>time.Now()\<close>; \<open>asMap\<close> and \<open>asString\<close> are the type assertions
  \<open>.(map[string]interface{})\<close> and \<open>.(string)\<close> on the result of a map lookup. The
  \<open>select\<close> with a \<open>default\<close> branch sends when the channel has room
  and counts a drop otherwise; it does not wait.
\<close>

definition asMap :: "jvalue option \<Rightarrow> Entry option" where
  "asMap v = (case v of Some (JMap m) \<Rightarrow> Some m | _ \<Rightarrow> None)"

definition asString :: "jvalue option \<Rightarrow> string option" where
  "asString v = (case v of Some (JString s) \<Rightarrow> Some s | _ \<Rightarrow> None)"

definition Push ::
  "(string \<Rightarrow> time option) \<Rightarrow> time \<Rightarrow> LokiExporter \<Rightarrow> Entry \<Rightarrow> string \<Rightarrow> LokiExporter" where
  "Push parseTime now e ent prov =
     (let ts = (case asMap (map_of ent ''_meta'') of
                  Some meta \<Rightarrow>
                    (case asString (map_of meta ''ts'') of
                       Some t \<Rightarrow> (case parseTime t of Some tm \<Rightarrow> tm | None \<Rightarrow> now)
                     | None \<Rightarrow> now)
                | None \<Rightarrow> now);
          lt = (case asString (map_of ent ''type'') of Some t \<Rightarrow> t | None \<Rightarrow> ''unknown'');
          mach = (case asMap (map_of ent ''_meta'') of
                    Some meta \<Rightarrow>
                      (case asString (map_of meta ''machine'') of
                         Some m \<Rightarrow> m
                       | None \<Rightarrow> ''unknown'')
                  | None \<Rightarrow> ''unknown'');
          le = \<lparr>leEntry = ent, leProvider = prov, leTimestamp = ts, leLogType = lt,
                leMachine = mach\<rparr>
      in if int (length (entryChan e)) < BufferSize (config e)
         then e\<lparr>entryChan := entryChan e @ [le]\<rparr>
         else e\<lparr>entriesDropped := entriesDropped e + 1\<rparr>)"

text \<open>
  \<open>sendBatch\<close>. First loop: every entry is put into the stream of its labels, unless
  its JSON serialisation fails; then \<open>entriesFailed\<close> is incremented and the entry is
  skipped. A stream is its label key and its values (time stamp and entry, for the
  decimal time stamp and the JSON line).
\<close>

type_synonym streams = "(string \<times> (time \<times> Entry) list) list"

definition labelKey :: "LokiExporterConfig \<Rightarrow> lokiEntry \<Rightarrow> string" where
  "labelKey cfg le =
     ''llm-proxy'' @ ''|'' @ leProvider le @ ''|'' @ Environment cfg @ ''|'' @ leMachine le
       @ ''|'' @ leLogType le"

fun appendValue :: "streams \<Rightarrow> string \<Rightarrow> time \<times> Entry \<Rightarrow> streams" where
  "appendValue [] k v = [(k, [v])]"
| "appendValue ((k', vs) # ss) k v =
     (if k' = k then (k', vs @ [v]) # ss else (k', vs) # appendValue ss k v)"

fun ensureStream :: "streams \<Rightarrow> string \<Rightarrow> streams" where
  "ensureStream [] k = [(k, [])]"
| "ensureStream ((k', vs) # ss) k =
     (if k' = k then (k', vs) # ss else (k', vs) # ensureStream ss k)"

fun groupEntries ::
  "LokiExporterConfig \<Rightarrow> streams \<Rightarrow> go_int \<Rightarrow> lokiEntry list \<Rightarrow> streams \<times> go_int" where
  "groupEntries cfg ss failed [] = (ss, failed)"
| "groupEntries cfg ss failed (le # les) =
     (let ss1 = ensureStream ss (labelKey cfg le)
      in if marshalable (JMap (leEntry le))
         then groupEntries cfg (appendValue ss1 (labelKey cfg le) (leTimestamp le, leEntry le))
                failed les
         else groupEntries cfg ss1 (failed + 1) les)"

text \<open>
  Second loop: \<open>doSend\<close> is tried for \<open>attempt = 0, ..., RetryMax\<close> and the loop returns at
  the first success. \<open>net n request\<close> tells whether the \<open>n\<close>-th post of the exporter's
  life, carrying \<open>request\<close>, is answered with a 2xx status.
\<close>

fun retry :: "(nat \<Rightarrow> streams \<Rightarrow> bool) \<Rightarrow> streams \<Rightarrow> nat \<Rightarrow> nat \<Rightarrow> bool \<times> nat" where
  "retry net request 0 n = (False, n)"
| "retry net request (Suc attempts) n =
     (if net n request then (True, Suc n) else retry net request attempts (Suc n))"

definition sendBatch ::
  "(nat \<Rightarrow> streams \<Rightarrow> bool) \<Rightarrow> LokiExporter \<Rightarrow> lokiEntry list \<Rightarrow> LokiExporter" where
  "sendBatch net e entries =
     (if entries = [] then e
      else
        let (request, failed) = groupEntries (config e) [] (entriesFailed e) entries;
            e1 = e\<lparr>entriesFailed := failed\<rparr>;
            entriesInBatch = (of_nat (length entries) :: go_int);
            (ok, n) = retry net request (nat (RetryMax (config e) + 1)) (posts e1);
            e2 = e1\<lparr>posts := n\<rparr>
        in if ok
           then e2\<lparr>entriesSent := entriesSent e2 + entriesInBatch,
                   batchesSent := batchesSent e2 + 1\<rparr>
           else e2\<lparr>entriesFailed := entriesFailed e2 + entriesInBatch\<rparr>)"

text \<open>
  The worker \<open>run\<close>, one \<open>select\<close> branch at a time. \<open>receive\<close>: an entry arrives from
  the channel; the batch is sent when it has reached \<open>BatchSize\<close>. \<open>tick\<close>: the ticker
  fires; a non-empty batch is sent. \<open>workerExit\<close>: the branch for a closed \<open>closeChan\<close>;
  the worker drains the channel into the batch, sends the batch when it is not empty,
  and returns, which closes \<open>closedChan\<close>.
\<close>

definition receive :: "(nat \<Rightarrow> streams \<Rightarrow> bool) \<Rightarrow> LokiExporter \<Rightarrow> LokiExporter" where
  "receive net e =
     (case entryChan e of
        [] \<Rightarrow> e
      | le # rest \<Rightarrow>
          (let e1 = e\<lparr>entryChan := rest, batch := batch e @ [le]\<rparr>
           in if int (length (batch e1)) \<ge> BatchSize (config e1)
              then (sendBatch net e1 (batch e1))\<lparr>batch := []\<rparr>
              else e1))"

definition tick :: "(nat \<Rightarrow> streams \<Rightarrow> bool) \<Rightarrow> LokiExporter \<Rightarrow> LokiExporter" where
  "tick net e = (if batch e \<noteq> [] then (sendBatch net e (batch e))\<lparr>batch := []\<rparr> else e)"

definition workerExit :: "(nat \<Rightarrow> streams \<Rightarrow> bool) \<Rightarrow> LokiExporter \<Rightarrow> LokiExporter" where
  "workerExit net e =
     (let drained = e\<lparr>entryChan := [], batch := batch e @ entryChan e\<rparr>;
          e1 = (if batch drained \<noteq> [] then sendBatch net drained (batch drained) else drained)
      in e1\<lparr>batch := [], workerDone := True\<rparr>)"

text \<open>
  \<open>Close\<close>. The first call closes \<open>closeChan\<close> and waits for the worker or for
  \<open>ShutdownTimeout\<close>, whichever comes first; \<open>inTime\<close> tells whether the worker has
  left its loop before the timeout has passed (real time is not modelled). In time,
  \<open>Close\<close> returns nil once the worker has drained and sent. Otherwise it returns the
  error \<open>shutdown timeout: ...\<close> while the worker is still at work: nothing of what was
  queued is counted yet, and the worker finishes later, after \<open>Close\<close> has returned. Any
  further call returns nil at once (\<open>closeOnce\<close>).
\<close>

datatype closeError = ShutdownTimeoutError | FileCloseError string

definition Close ::
  "(nat \<Rightarrow> streams \<Rightarrow> bool) \<Rightarrow> bool \<Rightarrow> LokiExporter \<Rightarrow> LokiExporter \<times> closeError option" where
  "Close net inTime e =
     (if closeCalled e then (e, None)
      else
        let e1 = e\<lparr>closeCalled := True\<rparr>
        in if workerDone e1 then (e1, None)
           else if inTime then (workerExit net e1, None)
           else (e1, Some ShutdownTimeoutError))"

text \<open>
  The life of an exporter as a sequence of events. A \<open>PushCall\<close> is a call of \<open>Push\<close> by
  a request handler; \<open>Receive\<close> and \<open>Tick\<close> are steps of the worker; \<open>CloseCall\<close> is a
  call of \<open>Close\<close> that the worker answers in time, \<open>CloseTimeout\<close> one that runs into
  the shutdown timeout, and \<open>WorkerExit\<close> the worker's leaving its loop after such a
  call.
\<close>

datatype exporterEvent =
    PushCall Entry string time | Receive | Tick | CloseCall | CloseTimeout | WorkerExit

definition exporterStep ::
  "(string \<Rightarrow> time option) \<Rightarrow> (nat \<Rightarrow> streams \<Rightarrow> bool) \<Rightarrow> LokiExporter \<Rightarrow> exporterEvent
     \<Rightarrow> LokiExporter" where
  "exporterStep parseTime net e ev =
     (case ev of
        PushCall ent prov now \<Rightarrow> Push parseTime now e ent prov
      | Receive \<Rightarrow> (if workerDone e then e else receive net e)
      | Tick \<Rightarrow> (if workerDone e then e else tick net e)
      | CloseCall \<Rightarrow> fst (Close net True e)
      | CloseTimeout \<Rightarrow> fst (Close net False e)
      | WorkerExit \<Rightarrow> (if closeCalled e \<and> \<not> workerDone e then workerExit net e else e))"

definition exporterRun ::
  "(string \<Rightarrow> time option) \<Rightarrow> (nat \<Rightarrow> streams \<Rightarrow> bool) \<Rightarrow> LokiExporter \<Rightarrow> exporterEvent list
     \<Rightarrow> LokiExporter" where
  "exporterRun parseTime net e evs = foldl (exporterStep parseTime net) e evs"

fun pushCount :: "exporterEvent list \<Rightarrow> nat" where
  "pushCount [] = 0"
| "pushCount (PushCall ent prov now # evs) = Suc (pushCount evs)"
| "pushCount (ev # evs) = pushCount evs"

text \<open>
  The specification's words for what \<open>Push\<close> extracts: the string under a key of a map,
  and the string under a key of the entry's \<open>_meta\<close> map; \<open>None\<close> when it is absent or
  not a string.
\<close>

definition stringField :: "Entry \<Rightarrow> string \<Rightarrow> string option" where
  "stringField m k = asString (map_of m k)"

definition metaString :: "Entry \<Rightarrow> string \<Rightarrow> string option" where
  "metaString ent k =
     (case asMap (map_of ent ''_meta'') of Some meta \<Rightarrow> stringField meta k | None \<Rightarrow> None)"

definition queuedEntry :: "(string \<Rightarrow> time option) \<Rightarrow> time \<Rightarrow> Entry \<Rightarrow> string \<Rightarrow> lokiEntry" where
  "queuedEntry parseTime now ent prov =
     \<lparr>leEntry = ent, leProvider = prov,
      leTimestamp = (case metaString ent ''ts'' of
                       Some t \<Rightarrow> (case parseTime t of Some tm \<Rightarrow> tm | None \<Rightarrow> now)
                     | None \<Rightarrow> now),
      leLogType = (case stringField ent ''type'' of Some t \<Rightarrow> t | None \<Rightarrow> ''unknown''),
      leMachine = (case metaString ent ''machine'' of Some m \<Rightarrow> m | None \<Rightarrow> ''unknown'')\<rparr>"

definition accounted :: "LokiExporter \<Rightarrow> go_int" where
  "accounted e =
     entriesSent e + entriesFailed e + entriesDropped e
       + of_nat (length (entryChan e)) + of_nat (length (batch e))"

definition serialisable :: "lokiEntry \<Rightarrow> bool" where
  "serialisable le = marshalable (JMap (leEntry le))"

fun pushedSerialisable :: "exporterEvent list \<Rightarrow> bool" where
  "pushedSerialisable [] = True"
| "pushedSerialisable (PushCall ent prov now # evs) =
     (marshalable (JMap ent) \<and> pushedSerialisable evs)"
| "pushedSerialisable (ev # evs) = pushedSerialisable evs"

definition queueSerialisable :: "LokiExporter \<Rightarrow> bool" where
  "queueSerialisable e = list_all serialisable (entryChan e @ batch e)"

text \<open>
  An exporter with room for four entries, an entry with its metadata, and an entry that
  holds a value \<open>json.Marshal\<close> rejects.
\<close>

definition exampleExporter :: LokiExporter where
  "exampleExporter =
     \<lparr>config = \<lparr>URL = ''http://loki:3100/loki/api/v1/push'', BatchSize = 1000, RetryMax = 5,
                 BufferSize = 4, Environment = ''test''\<rparr>,
      entryChan = [], batch = [], closeCalled = False, workerDone = False,
      entriesSent = 0, entriesFailed = 0, entriesDropped = 0, batchesSent = 0, posts = 0\<rparr>"

definition exampleEntry :: Entry where
  "exampleEntry =
     [(''type'', JString ''request''), (''seq'', JInt 1),
      (''_meta'', JMap [(''ts'', JString ''2026-01-23T15:04:05Z''),
                        (''machine'', JString ''drew@macbook'')])]"

definition unserialisableEntry :: Entry where
  "unserialisableEntry = [(''type'', JString ''request''), (''score'', JUnsupported)]"

section \<open>The fan-out writer (multi\_writer.go)\<close>

text \<open>
  \<open>MultiWriter\<close> wraps the file logger (field \<open>file\<close>, here \<open>fileLogger\<close>) and an optional
  exporter (field \<open>loki\<close>, here \<open>lokiExporter\<close>; \<open>None\<close> for a nil \<open>*LokiExporter\<close>). Of the file logger it reads \<open>machineID\<close> and \<open>upstreams\<close>; what the
  file logger writes, and whether it fails, is decided outside: every log method is
  given the error its call on the file logger returns (\<open>None\<close> for nil), and the text of
  the current time (\<open>timeNowRFC3339Nano()\<close>). The calls made on the two collaborators are
  recorded in order.
\<close>

record Logger =
  machineID :: string
  upstreams :: "string \<rightharpoonup> string"

datatype fanoutCall =
    FileLogSessionStart string
  | FileLogRequest string go_int
  | FileLogResponse string go_int
  | FileLogFork string
  | LokiPush Entry string
  | LokiClose
  | FileClose

record MultiWriter =
  fileLogger :: Logger
  lokiExporter :: "LokiExporter option"
  calls :: "fanoutCall list"





















section \<open>The event engine\<close>

text \<open>
  The content blocks of parser.go (the fields the events use), and the tool results
  and tool calls that the tests of event\_emission\_test.go read.
\<close>

record ContentBlock =
  Type :: string
  Text :: string
  ToolID :: string
  ToolName :: string

record ToolResult =
  ToolUseID :: string
  IsError :: bool

record ToolCall =
  CallToolName :: string
  CallToolID :: string
  ToolIndex :: go_int

record PatternData =
  PTurnCount :: go_int
  PSessionToolCount :: go_int
  PToolStreak :: go_int
  PRetryCount :: go_int

record TokenData =
  InputTokens :: go_int
  OutputTokens :: go_int

text \<open>The four events of the \<open>EventEmitter\<close> interface (session, provider and machine left out).\<close>

datatype emitted =
    TurnStart go_int bool
  | TurnEnd string bool string PatternData TokenData
  | ToolCallEvent string go_int string
  | ToolResultEvent string string bool

text \<open>
  Modelled from the spec: \<open>extractToolCalls\<close>, \<open>ClearMatchedToolID\<close>,
  \<open>processToolResultsAndEmitEvents\<close> and the rest of the per-turn flow of the event
  engine, which are not among the sources (only \<open>ComputePatterns\<close> and the tests are).
  The definitions follow section 4.9 of the specification, steps 1 to 6, together with
  its section 9: the source's \<open>error_recovered\<close> is the value that \<open>last_was_error\<close> had
  before the fold of the current request's tool results overwrote it, although the fold
  comes before \<open>turn_start\<close> is emitted. This is the behaviour that
  \<open>TestErrorRecoveredFlag\<close> asserts.
\<close>

fun extractToolCallsFrom :: "go_int \<Rightarrow> ContentBlock list \<Rightarrow> ToolCall list" where
  "extractToolCallsFrom i [] = []"
| "extractToolCallsFrom i (b # bs) =
     (if Type b = ''tool_use''
      then \<lparr>CallToolName = ToolName b, CallToolID = ToolID b, ToolIndex = i\<rparr>
             # extractToolCallsFrom (i + 1) bs
      else extractToolCallsFrom i bs)"

definition extractToolCalls :: "ContentBlock list \<Rightarrow> ToolCall list" where
  "extractToolCalls content = extractToolCallsFrom 0 content"

definition ClearMatchedToolID :: "PatternState \<Rightarrow> string \<Rightarrow> string \<times> PatternState" where
  "ClearMatchedToolID state toolUseID =
     (case PendingToolIDs state toolUseID of
        None \<Rightarrow> ([], state)
      | Some name \<Rightarrow> (name, state\<lparr>PendingToolIDs := (PendingToolIDs state)(toolUseID := None)\<rparr>))"

fun foldToolResults ::
  "PatternState \<Rightarrow> bool \<Rightarrow> ToolResult list \<Rightarrow> PatternState \<times> bool \<times> emitted list" where
  "foldToolResults state anyError [] = (state, anyError, [])"
| "foldToolResults state anyError (r # rs) =
     (case ClearMatchedToolID state (ToolUseID r) of
        (name, state1) \<Rightarrow>
          (case foldToolResults state1 (anyError \<or> IsError r) rs of
             (state2, anyError2, events) \<Rightarrow>
               (state2, anyError2, ToolResultEvent (ToolUseID r) name (IsError r) # events)))"

text \<open>
  Step 1: the fold. It returns the new state (with \<open>last_was_error\<close> set to the OR of the
  \<open>is_error\<close> flags), the \<open>tool_result\<close> events and the value \<open>last_was_error\<close> had before.
\<close>

definition processToolResultsAndEmitEvents ::
  "PatternState \<Rightarrow> ToolResult list \<Rightarrow> PatternState \<times> bool \<times> emitted list" where
  "processToolResultsAndEmitEvents state results =
     (let errorRecovered = LastWasError state;
          (state1, anyError, events) = foldToolResults state False results
      in (state1\<lparr>LastWasError := anyError\<rparr>, errorRecovered, events))"

fun recordToolCalls :: "PatternState \<Rightarrow> ToolCall list \<Rightarrow> PatternState \<times> emitted list" where
  "recordToolCalls state [] = (state, [])"
| "recordToolCalls state (c # cs) =
     (case recordToolCalls
             (state\<lparr>PendingToolIDs := (PendingToolIDs state)(CallToolID c \<mapsto> CallToolName c)\<rparr>) cs of
        (state1, events) \<Rightarrow>
          (state1, ToolCallEvent (CallToolName c) (ToolIndex c) (CallToolID c) # events))"

definition firstToolName :: "ToolCall list \<Rightarrow> string" where
  "firstToolName toolCalls = (case toolCalls of [] \<Rightarrow> [] | c # cs \<Rightarrow> CallToolName c)"

text \<open>One request/response cycle on a session-tracked path: steps 1 to 5.\<close>

definition processTurn ::
  "PatternState \<Rightarrow> ToolResult list \<Rightarrow> ContentBlock list \<Rightarrow> string \<Rightarrow> string \<Rightarrow> TokenData
     \<Rightarrow> PatternState \<times> emitted list" where
  "processTurn state results content stopReason errorType tokens =
     (let (state1, errorRecovered, resultEvents) = processToolResultsAndEmitEvents state results;
          turnStart = TurnStart (TurnCount state1 + 1) errorRecovered;
          toolCalls = extractToolCalls content;
          (state2, callEvents) = recordToolCalls state1 toolCalls;
          (state3, isRetry) = ComputePatterns state2 (firstToolName toolCalls);
          state4 = state3\<lparr>SessionToolCount :=
                      SessionToolCount state3 + of_nat (length toolCalls)\<rparr>;
          state5 = state4\<lparr>TurnCount := TurnCount state4 + 1\<rparr>;
          turnEnd = TurnEnd stopReason isRetry errorType
                      \<lparr>PTurnCount = TurnCount state5,
                       PSessionToolCount = SessionToolCount state5,
                       PToolStreak = ToolStreak state5, PRetryCount = RetryCount state5\<rparr>
                      tokens
      in (state5, resultEvents @ [turnStart] @ callEvents @ [turnEnd]))"

definition anyIsError :: "ToolResult list \<Rightarrow> bool" where
  "anyIsError results = list_ex IsError results"

definition turnStarts :: "emitted list \<Rightarrow> (go_int \<times> bool) list" where
  "turnStarts events =
     concat (map (\<lambda>ev. case ev of TurnStart depth recovered \<Rightarrow> [(depth, recovered)] | _ \<Rightarrow> [])
               events)"

text \<open>The three turns of \<open>TestErrorRecoveredFlag\<close>.\<close>

definition bashCall :: "string \<Rightarrow> ContentBlock list" where
  "bashCall toolID = [\<lparr>Type = ''tool_use'', Text = [], ToolID = toolID, ToolName = ''Bash''\<rparr>]"

definition doneText :: "ContentBlock list" where
  "doneText = [\<lparr>Type = ''text'', Text = ''Done!'', ToolID = [], ToolName = []\<rparr>]"

definition turn1 :: "PatternState \<times> emitted list" where
  "turn1 = processTurn defaultPatternState [] (bashCall ''tool_err'') ''tool_use'' []
     \<lparr>InputTokens = 10, OutputTokens = 5\<rparr>"

definition turn2 :: "PatternState \<times> emitted list" where
  "turn2 = processTurn (fst turn1) [\<lparr>ToolUseID = ''tool_err'', IsError = True\<rparr>]
     (bashCall ''tool_retry'') ''tool_use'' [] \<lparr>InputTokens = 15, OutputTokens = 10\<rparr>"

definition turn3 :: "PatternState \<times> emitted list" where
  "turn3 = processTurn (fst turn2) [\<lparr>ToolUseID = ''tool_retry'', IsError = False\<rparr>]
     doneText ''end_turn'' [] \<lparr>InputTokens = 20, OutputTokens = 5\<rparr>"

section \<open>The session manager (session.go)\<close>

text \<open>
  Modelled from the spec: the session store \<open>SessionDB\<close> (db.go), which is not among the
  sources. Its operations follow the table of section 4.2 of the specification:
  \<open>create_session\<close> inserts and fails when the identifier exists; \<open>find_by_client_session_id\<close>
  returns the session identifier or the empty string; \<open>get_session_with_client_id\<close>
  returns client identifier, provider, upstream and \<open>last_seq\<close>; \<open>update_session_seq\<close>
  fails when the identifier is missing. A new session has \<open>last_seq = 1\<close> (section 3:
  \<open>last_seq\<close> is at least 1; \<open>TestSessionManagerContinuationWithClientSessionID\<close> expects
  2 for the second request).
\<close>

record Session =
  sessionClientID :: string
  sessionProvider :: string
  sessionUpstream :: string
  lastSeq :: go_int
  filePath :: string

type_synonym SessionDB = "(string \<times> Session) list"

definition CreateSessionWithClientID ::
  "SessionDB \<Rightarrow> string \<Rightarrow> string \<Rightarrow> string \<Rightarrow> string \<Rightarrow> string \<Rightarrow> string + SessionDB" where
  "CreateSessionWithClientID db sid clientID prov upstream fp =
     (if sid \<in> fst ` set db then Inl ''UNIQUE constraint failed: sessions.id''
      else Inr (db @ [(sid, \<lparr>sessionClientID = clientID, sessionProvider = prov,
                              sessionUpstream = upstream, lastSeq = 1, filePath = fp\<rparr>)]))"

definition CreateSession ::
  "SessionDB \<Rightarrow> string \<Rightarrow> string \<Rightarrow> string \<Rightarrow> string \<Rightarrow> string + SessionDB" where
  "CreateSession db sid prov upstream fp = CreateSessionWithClientID db sid [] prov upstream fp"

definition FindByClientSessionID :: "SessionDB \<Rightarrow> string \<Rightarrow> string + string" where
  "FindByClientSessionID db clientID =
     (case find (\<lambda>row. sessionClientID (snd row) = clientID) db of
        None \<Rightarrow> Inr []
      | Some row \<Rightarrow> Inr (fst row))"

definition GetSessionWithClientID ::
  "SessionDB \<Rightarrow> string \<Rightarrow> string + (string \<times> string \<times> string \<times> go_int)" where
  "GetSessionWithClientID db sid =
     (case map_of db sid of
        None \<Rightarrow> Inl ''sql: no rows in result set''
      | Some s \<Rightarrow> Inr (sessionClientID s, sessionProvider s, sessionUpstream s, lastSeq s))"

definition UpdateSessionSeq :: "SessionDB \<Rightarrow> string \<Rightarrow> go_int \<Rightarrow> string + SessionDB" where
  "UpdateSessionSeq db sid seq =
     (if sid \<in> fst ` set db
      then Inr (map (\<lambda>row. if fst row = sid then (sid, (snd row)\<lparr>lastSeq := seq\<rparr>) else row) db)
      else Inl ''session not found'')"

text \<open>
  session.go. What a call takes from outside: the identifier that \<open>generateSessionID\<close>
  draws, the date, and the error of \<open>os.MkdirAll\<close>, if any. The result is the error, or
  session identifier, sequence number and \<open>isNewSession\<close>.
\<close>

record SessionEnv =
  newSessionID :: string
  dateStr :: string
  mkdirErr :: "string option"

definition sessionFilePath :: "string \<Rightarrow> string \<Rightarrow> string \<Rightarrow> string" where
  "sessionFilePath upstream date sid = upstream @ ''/'' @ date @ ''/'' @ sid @ ''.jsonl''"

definition createNewSessionWithClientID ::
  "SessionEnv \<Rightarrow> SessionDB \<Rightarrow> string \<Rightarrow> string \<Rightarrow> string
     \<Rightarrow> SessionDB \<times> (string + (string \<times> go_int \<times> bool))" where
  "createNewSessionWithClientID env db clientSessionID prov upstream =
     (let sessionID = newSessionID env;
          fp = sessionFilePath upstream (dateStr env) sessionID
      in case mkdirErr env of
           Some err \<Rightarrow> (db, Inl err)
         | None \<Rightarrow>
             (case CreateSessionWithClientID db sessionID clientSessionID prov upstream fp of
                Inl err \<Rightarrow> (db, Inl err)
              | Inr db1 \<Rightarrow> (db1, Inr (sessionID, 1, True))))"

definition createNewSession ::
  "SessionEnv \<Rightarrow> SessionDB \<Rightarrow> string \<Rightarrow> string
     \<Rightarrow> SessionDB \<times> (string + (string \<times> go_int \<times> bool))" where
  "createNewSession env db prov upstream =
     (let sessionID = newSessionID env;
          fp = sessionFilePath upstream (dateStr env) sessionID
      in case mkdirErr env of
           Some err \<Rightarrow> (db, Inl err)
         | None \<Rightarrow>
             (case CreateSession db sessionID prov upstream fp of
                Inl err \<Rightarrow> (db, Inl err)
              | Inr db1 \<Rightarrow> (db1, Inr (sessionID, 1, True))))"

definition getOrCreateByClientSessionID ::
  "SessionEnv \<Rightarrow> SessionDB \<Rightarrow> string \<Rightarrow> string \<Rightarrow> string
     \<Rightarrow> SessionDB \<times> (string + (string \<times> go_int \<times> bool))" where
  "getOrCreateByClientSessionID env db clientSessionID prov upstream =
     (case FindByClientSessionID db clientSessionID of
        Inl err \<Rightarrow> (db, Inl err)
      | Inr existingSession \<Rightarrow>
          if existingSession \<noteq> [] then
            (case GetSessionWithClientID db existingSession of
               Inl err \<Rightarrow> (db, Inl err)
             | Inr (cid, p, u, storedSeq) \<Rightarrow>
                 (let newSeq = storedSeq + 1
                  in case UpdateSessionSeq db existingSession newSeq of
                       Inl err \<Rightarrow> (db, Inl err)
                     | Inr db1 \<Rightarrow> (db1, Inr (existingSession, newSeq, False))))
          else createNewSessionWithClientID env db clientSessionID prov upstream)"

text \<open>
  \<open>GetOrCreateSession\<close>, given the client session identifier that
  \<open>ExtractClientSessionID\<close> found in the request (empty when there is none).
\<close>

definition GetOrCreateSession ::
  "SessionEnv \<Rightarrow> SessionDB \<Rightarrow> string \<Rightarrow> string \<Rightarrow> string
     \<Rightarrow> SessionDB \<times> (string + (string \<times> go_int \<times> bool))" where
  "GetOrCreateSession env db clientSessionID prov upstream =
     (if clientSessionID \<noteq> []
      then getOrCreateByClientSessionID env db clientSessionID prov upstream
      else createNewSession env db prov upstream)"

text \<open>
  The sequence numbers of successive requests of one client session: each request
  calls \<open>GetOrCreateSession\<close> with its own environment; a request that fails gets none.
\<close>

fun requestSeqs ::
  "SessionDB \<Rightarrow> string \<Rightarrow> string \<Rightarrow> string \<Rightarrow> SessionEnv list \<Rightarrow> go_int option list" where
  "requestSeqs db clientSessionID prov upstream [] = []"
| "requestSeqs db clientSessionID prov upstream (env # envs) =
     (case GetOrCreateSession env db clientSessionID prov upstream of
        (db1, Inl err) \<Rightarrow> None # requestSeqs db1 clientSessionID prov upstream envs
      | (db1, Inr (sid, seq, isNew)) \<Rightarrow>
          Some seq # requestSeqs db1 clientSessionID prov upstream envs)"

definition wellFormedDB :: "SessionDB \<Rightarrow> bool" where
  "wellFormedDB db = distinct (map fst db)"


definition exampleSessionEnv :: SessionEnv where
  "exampleSessionEnv =
     \<lparr>newSessionID = ''20260113-150405-a1b2c3d4'', dateStr = ''2026-01-13'', mkdirErr = None\<rparr>"

section \<open>Properties of the obfuscation\<close>


lemma HasPrefix_Nil [simp]: "HasPrefix s []"
  by (simp add: HasPrefix_def)

lemma HasPrefix_Nil_Cons [simp]: "\<not> HasPrefix [] (d # p)"
  by (simp add: HasPrefix_def)

lemma HasPrefix_Cons_Cons [simp]: "HasPrefix (c # s) (d # p) \<longleftrightarrow> c = d \<and> HasPrefix s p"
  by (auto simp: HasPrefix_def)



































section \<open>Properties of ComputePatterns\<close>

text \<open>
  Claim C4. For every pattern state and first-tool name: with an empty first tool name
  the streak and the retry count become 0, the last tool name is kept and the result is
  false; otherwise the result is (first tool = last tool) and last\_was\_error, the
  streak is incremented on the same tool and set to 1 on another one, the retry count is
  incremented on a retry and reset to 0 otherwise, and the last tool name becomes the
  first tool name. The flag last\_was\_error (as well as turn\_count, session\_tool\_count
  and pending\_tool\_ids) is never modified.
\<close>

theorem ComputePatterns_spec:
  "ComputePatterns st name = (st', r) \<Longrightarrow>
     LastWasError st' = LastWasError st \<and>
     TurnCount st' = TurnCount st \<and>
     SessionToolCount st' = SessionToolCount st \<and>
     PendingToolIDs st' = PendingToolIDs st \<and>
     (name = [] \<longrightarrow>
        ToolStreak st' = 0 \<and> RetryCount st' = 0 \<and>
        LastToolName st' = LastToolName st \<and> r = False) \<and>
     (name \<noteq> [] \<longrightarrow>
        r = (name = LastToolName st \<and> LastWasError st) \<and>
        ToolStreak st' = (if name = LastToolName st then ToolStreak st + 1 else 1) \<and>
        RetryCount st' = (if r then RetryCount st + 1 else 0) \<and>
        LastToolName st' = name)"
  by (auto simp: ComputePatterns_def Let_def split: if_splits)

theorem ComputePatterns_spec_witness:
  "ComputePatterns (defaultPatternState\<lparr>LastToolName := ''Bash'', ToolStreak := 2,
       RetryCount := 1, LastWasError := True\<rparr>) ''Bash''
     = (defaultPatternState\<lparr>LastToolName := ''Bash'', ToolStreak := 3,
       RetryCount := 2, LastWasError := True\<rparr>, True)"
  using ComputePatterns_spec [of "defaultPatternState\<lparr>LastToolName := ''Bash'',
       ToolStreak := 2, RetryCount := 1, LastWasError := True\<rparr>" "''Bash''"
       "fst (ComputePatterns (defaultPatternState\<lparr>LastToolName := ''Bash'',
       ToolStreak := 2, RetryCount := 1, LastWasError := True\<rparr>) ''Bash'')"
       "snd (ComputePatterns (defaultPatternState\<lparr>LastToolName := ''Bash'',
       ToolStreak := 2, RetryCount := 1, LastWasError := True\<rparr>) ''Bash'')"]
  by (simp add: ComputePatterns_def defaultPatternState_def Let_def)

section \<open>ObfuscateHeaders leaves its argument alone\<close>

lemma fillValues_maps [simp]: "maps (fillValues h nv key i vs) = maps h"
  by (induction h nv key i vs rule: fillValues.induct) (auto simp: storeIndex_def)

lemma fillValues_nxt [simp]: "nxt (fillValues h nv key i vs) = nxt h"
  by (induction h nv key i vs rule: fillValues.induct) (auto simp: storeIndex_def)

lemma fillValues_other: "a \<noteq> nv \<Longrightarrow> slices (fillValues h nv key i vs) a = slices h a"
  by (induction h nv key i vs rule: fillValues.induct) (auto simp: storeIndex_def)

lemma fillValues_content:
  "slices h nv = Some xs \<Longrightarrow> i + length vs \<le> length xs \<Longrightarrow>
   slices (fillValues h nv key i vs) nv =
     Some (take i xs @ map (\<lambda>v. if isAPIKeyHeader key then obfuscateHeaderValue v else v) vs
           @ drop (i + length vs) xs)"
proof (induction h nv key i vs arbitrary: xs rule: fillValues.induct)
  case (1 h newValues key i)
  then show ?case by simp
next
  case (2 h newValues key i v vs)
  let ?w = "if isAPIKeyHeader key then obfuscateHeaderValue v else v"
  have s: "slices (storeIndex h newValues i ?w) newValues = Some (xs[i := ?w])"
    using 2(2) by (simp add: storeIndex_def readSlice_def)
  have "Suc i + length vs \<le> length (xs[i := ?w])" using 2(3) by simp
  from "2.IH" [OF s this] show ?case
    using 2(3) by (simp add: take_Suc_conv_app_nth upd_conv_take_nth_drop)
qed

lemma copyEntries_slices: "a < nxt h \<Longrightarrow> slices (copyEntries h result es) a = slices h a"
proof (induction h result es rule: copyEntries.induct)
  case (1 h result)
  then show ?case by simp
next
  case (2 h result key vals rest)
  let ?h1 = "snd (makeSlice h (length (readSlice h vals)))"
  let ?h2 = "fillValues ?h1 (nxt h) key 0 (readSlice h vals)"
  let ?h3 = "storeKey ?h2 result key (nxt h)"
  have n3: "nxt ?h3 = Suc (nxt h)" by (simp add: storeKey_def makeSlice_def)
  have "slices (copyEntries ?h3 result rest) a = slices ?h3 a"
    using 2 n3 by (simp add: makeSlice_def)
  moreover have "slices ?h3 a = slices h a"
    using 2(2) by (simp add: storeKey_def fillValues_other makeSlice_def)
  ultimately show ?case by (simp add: makeSlice_def Let_def)
qed

lemma copyEntries_maps: "a \<noteq> result \<Longrightarrow> maps (copyEntries h result es) a = maps h a"
  by (induction h result es rule: copyEntries.induct)
     (auto simp: makeSlice_def storeKey_def Let_def)

lemma copyEntries_nxt: "nxt h \<le> nxt (copyEntries h result es)"
proof (induction h result es rule: copyEntries.induct)
  case (1 h result)
  then show ?case by simp
next
  case (2 h result key vals rest)
  let ?h1 = "snd (makeSlice h (length (readSlice h vals)))"
  let ?h2 = "fillValues ?h1 (nxt h) key 0 (readSlice h vals)"
  let ?h3 = "storeKey ?h2 result key (nxt h)"
  have n3: "nxt ?h3 = Suc (nxt h)" by (simp add: storeKey_def makeSlice_def)
  have "nxt ?h3 \<le> nxt (copyEntries ?h3 result rest)"
    using 2 by (simp add: makeSlice_def)
  with n3 show ?case by (simp add: makeSlice_def Let_def)
qed

lemma assign_fresh: "k \<notin> fst ` set m \<Longrightarrow> assign m k a = m @ [(k, a)]"
  by (induction m) auto

lemma copyEntries_content:
  assumes "maps h result = Some m0"
    and "\<forall>(k, va) \<in> set m0. va < nxt h"
    and "\<forall>(k, va) \<in> set es. va < nxt h"
    and "distinct (map fst es)"
    and "fst ` set es \<inter> fst ` set m0 = {}"
  shows "headerAt (copyEntries h result es) result =
           headerAt h result @ ObfuscateHeaders (map (\<lambda>(k, va). (k, readSlice h va)) es)"
  using assms
proof (induction h result es arbitrary: m0 rule: copyEntries.induct)
  case (1 h result)
  then show ?case by (simp add: ObfuscateHeaders_def)
next
  case (2 h result key vals rest)
  let ?f = "\<lambda>v. if isAPIKeyHeader key then obfuscateHeaderValue v else v"
  let ?vs = "readSlice h vals"
  let ?h1 = "snd (makeSlice h (length ?vs))"
  let ?h2 = "fillValues ?h1 (nxt h) key 0 ?vs"
  let ?h3 = "storeKey ?h2 result key (nxt h)"
  let ?m1 = "m0 @ [(key, nxt h)]"
  have ms: "(nxt h, ?h1) = makeSlice h (length ?vs)" by (simp add: makeSlice_def)
  have s1: "slices ?h1 (nxt h) = Some (replicate (length ?vs) [])"
    by (simp add: makeSlice_def)
  have s2: "slices ?h2 (nxt h) = Some (map ?f ?vs)"
    using fillValues_content [OF s1, of 0 ?vs key] by simp
  have old: "slices ?h3 a = slices h a" if "a < nxt h" for a
    using that by (simp add: storeKey_def fillValues_other makeSlice_def)
  have rd: "readSlice ?h3 a = readSlice h a" if "a < nxt h" for a
    using old [OF that] by (simp add: readSlice_def)
  have new: "readSlice ?h3 (nxt h) = map ?f ?vs"
    using s2 by (simp add: readSlice_def storeKey_def)
  have kf: "key \<notin> fst ` set m0" using "2.prems"(5) by auto
  have m2: "maps ?h2 result = Some m0"
    using "2.prems"(1) by (simp add: makeSlice_def)
  have m3: "maps ?h3 result = Some ?m1"
    using m2 kf by (simp add: storeKey_def readMap_def assign_fresh)
  have n3: "nxt ?h3 = Suc (nxt h)" by (simp add: storeKey_def makeSlice_def)
  have p2: "\<forall>(k, va) \<in> set ?m1. va < nxt ?h3"
    using "2.prems"(2) n3 by auto
  have p3: "\<forall>(k, va) \<in> set rest. va < nxt ?h3"
    using "2.prems"(3) n3 by auto
  have p4: "distinct (map fst rest)" using "2.prems"(4) by simp
  have p5: "fst ` set rest \<inter> fst ` set ?m1 = {}"
    using "2.prems"(4,5) by auto
  have ih: "headerAt (copyEntries ?h3 result rest) result =
      headerAt ?h3 result @ ObfuscateHeaders (map (\<lambda>(k, va). (k, readSlice ?h3 va)) rest)"
    using "2.IH" [OF refl ms refl refl m3 p2 p3 p4 p5] .
  have a1: "headerAt ?h3 result = headerAt h result @ [(key, map ?f ?vs)]"
    using m3 "2.prems"(1,2) rd new
    by (auto simp: headerAt_def readMap_def)
  have a2: "map (\<lambda>(k, va). (k, readSlice ?h3 va)) rest = map (\<lambda>(k, va). (k, readSlice h va)) rest"
    using "2.prems"(3) rd by auto
  have "copyEntries h result ((key, vals) # rest) = copyEntries ?h3 result rest"
    by (simp add: makeSlice_def Let_def)
  then show ?case
    unfolding ih a1 a2 by (simp add: ObfuscateHeaders_def ih a1 a2)
qed


lemma set_assign: "set (assign m k a) \<subseteq> insert (k, a) (set m)"
  by (induction m) (auto split: if_splits)

lemma copyEntries_result_dom:
  "result \<in> dom (maps h) \<Longrightarrow> result \<in> dom (maps (copyEntries h result es))"
  by (induction h result es rule: copyEntries.induct)
     (auto simp: makeSlice_def storeKey_def Let_def)

lemma copyEntries_result_fresh:
  assumes "\<forall>(k, va) \<in> set (readMap h result). n \<le> va" and "n \<le> nxt h"
  shows "\<forall>(k, va) \<in> set (readMap (copyEntries h result es) result). n \<le> va"
  using assms
proof (induction h result es rule: copyEntries.induct)
  case (1 h result)
  then show ?case by simp
next
  case (2 h result key vals rest)
  let ?vs = "readSlice h vals"
  let ?h1 = "snd (makeSlice h (length ?vs))"
  let ?h2 = "fillValues ?h1 (nxt h) key 0 ?vs"
  let ?h3 = "storeKey ?h2 result key (nxt h)"
  have ms: "(nxt h, ?h1) = makeSlice h (length ?vs)" by (simp add: makeSlice_def)
  have "readMap ?h3 result = assign (readMap h result) key (nxt h)"
    by (simp add: storeKey_def readMap_def makeSlice_def)
  then have p1: "\<forall>(k, va) \<in> set (readMap ?h3 result). n \<le> va"
    using "2.prems" set_assign [of "readMap h result" key "nxt h"] by auto
  have p2: "n \<le> nxt ?h3" using "2.prems"(2) by (simp add: storeKey_def makeSlice_def)
  have "copyEntries h result ((key, vals) # rest) = copyEntries ?h3 result rest"
    by (simp add: makeSlice_def Let_def)
  with "2.IH" [OF refl ms refl refl p1 p2] show ?case by simp
qed

text \<open>
  Claim C10. For every header map, \<open>ObfuscateHeaders\<close> returns a newly allocated map whose
  value slices are newly allocated too, and writes to nothing else: every map and every
  slice that existed before the call is unchanged after it, so the argument has the same
  keys and values as before, and the headers forwarded upstream are not affected by
  logging. The new map holds the obfuscated headers.
\<close>

theorem ObfuscateHeaders_heap_frame:
  assumes wf: "wellFormed h headers"
    and run: "ObfuscateHeaders_heap h headers = (result, h')"
  shows "(\<forall>a \<in> dom (maps h). maps h' a = maps h a) \<and>
         (\<forall>a \<in> dom (slices h). slices h' a = slices h a) \<and>
         result \<notin> dom (maps h) \<and> result \<in> dom (maps h') \<and>
         (\<forall>(k, va) \<in> set (readMap h' result). va \<notin> dom (slices h)) \<and>
         headerAt h' headers = headerAt h headers \<and>
         headerAt h' result = ObfuscateHeaders (headerAt h headers)"
proof -
  let ?h1 = "h\<lparr>maps := (maps h)(nxt h \<mapsto> []), nxt := Suc (nxt h)\<rparr>"
  let ?es = "readMap h headers"
  from run have res: "result = nxt h" and h': "h' = copyEntries ?h1 (nxt h) ?es"
    by (auto simp: ObfuscateHeaders_heap_def makeMap_def Let_def)
  from wf have al_m: "\<And>a. a \<in> dom (maps h) \<Longrightarrow> a < nxt h"
    and al_s: "\<And>a. a \<in> dom (slices h) \<Longrightarrow> a < nxt h"
    and hd: "headers \<in> dom (maps h)"
    and dist: "distinct (map fst ?es)"
    and vals: "\<forall>(k, va) \<in> set ?es. va \<in> dom (slices h)"
    by (auto simp: wellFormed_def allocated_def)
  have vals_lt: "\<forall>(k, va) \<in> set ?es. va < nxt h"
    using vals al_s by fastforce
  have sl: "slices h' a = slices h a" if "a < nxt h" for a
    using copyEntries_slices [of a ?h1 "nxt h" ?es] that by (simp add: h')
  have mp: "maps h' a = maps h a" if "a < nxt h" for a
    using copyEntries_maps [of a "nxt h" ?h1 ?es] that by (simp add: h')
  have c1: "\<forall>a \<in> dom (maps h). maps h' a = maps h a" using mp al_m by blast
  have c2: "\<forall>a \<in> dom (slices h). slices h' a = slices h a" using sl al_s by blast
  have c3: "result \<notin> dom (maps h)" using al_m res by blast
  have cont: "headerAt h' (nxt h) =
      headerAt ?h1 (nxt h) @ ObfuscateHeaders (map (\<lambda>(k, va). (k, readSlice ?h1 va)) ?es)"
    unfolding h'
    by (rule copyEntries_content [where ?m0.0 = "[]"]) (use vals_lt dist in auto)
  have "headerAt ?h1 (nxt h) = []" by (simp add: headerAt_def readMap_def)
  moreover have "map (\<lambda>(k, va). (k, readSlice ?h1 va)) ?es = headerAt h headers"
    by (simp add: headerAt_def readSlice_def)
  ultimately have c7: "headerAt h' result = ObfuscateHeaders (headerAt h headers)"
    using cont res by simp
  have c4: "result \<in> dom (maps h')"
    unfolding h' res by (rule copyEntries_result_dom) simp
  have c6: "headerAt h' headers = headerAt h headers"
  proof -
    from hd al_m have lt: "headers < nxt h" by blast
    then have "readMap h' headers = readMap h headers" using mp by (simp add: readMap_def)
    moreover have "readSlice h' va = readSlice h va" if "(k, va) \<in> set ?es" for k va
      using that vals_lt sl by (auto simp: readSlice_def)
    ultimately show ?thesis by (auto simp: headerAt_def)
  qed
  have c5: "\<forall>(k, va) \<in> set (readMap h' result). va \<notin> dom (slices h)"
  proof -
    have "\<forall>(k, va) \<in> set (readMap (copyEntries ?h1 (nxt h) ?es) (nxt h)). nxt h \<le> va"
      by (rule copyEntries_result_fresh) (simp_all add: readMap_def)
    then show ?thesis using al_s unfolding h' res by fastforce
  qed
  from c1 c2 c3 c4 c5 c6 c7 show ?thesis by (intro conjI)
qed

theorem ObfuscateHeaders_heap_frame_witness:
  "wellFormed exampleHeap 0 \<and>
   headerAt (snd (ObfuscateHeaders_heap exampleHeap 0)) 0 = headerAt exampleHeap 0 \<and>
   fst (ObfuscateHeaders_heap exampleHeap 0) \<notin> dom (maps exampleHeap) \<and>
   headerAt (snd (ObfuscateHeaders_heap exampleHeap 0)) (fst (ObfuscateHeaders_heap exampleHeap 0))
     = ObfuscateHeaders (headerAt exampleHeap 0)"
proof -
  have wf: "wellFormed exampleHeap 0"
    by (simp add: wellFormed_def allocated_def exampleHeap_def readMap_def)
  have run: "ObfuscateHeaders_heap exampleHeap 0 =
      (fst (ObfuscateHeaders_heap exampleHeap 0), snd (ObfuscateHeaders_heap exampleHeap 0))"
    by simp
  note t = ObfuscateHeaders_heap_frame [OF wf run]
  from wf t [THEN conjunct2, THEN conjunct2, THEN conjunct1]
    t [THEN conjunct2, THEN conjunct2, THEN conjunct2, THEN conjunct2, THEN conjunct2]
  show ?thesis by blast
qed

section \<open>What the client receives\<close>

lemma lookupValues_empty [simp]: "lookupValues Map.empty k = []"
  by (simp add: lookupValues_def)

lemma lookupValues_Add:
  "lookupValues (Header_Add h key v) k =
     (if k = CanonicalMIMEHeaderKey key then lookupValues h k @ [v] else lookupValues h k)"
  by (simp add: Header_Add_def lookupValues_def Let_def)

lemma addValues_lookup:
  "lookupValues (addValues dst key vals) k =
     (if k = CanonicalMIMEHeaderKey key then lookupValues dst k @ vals else lookupValues dst k)"
  by (induction dst key vals rule: addValues.induct) (simp_all add: lookupValues_Add)

lemma copyHeaders_lookup:
  "parsedHeader src \<Longrightarrow>
   lookupValues (copyHeaders dst src) k = lookupValues dst k @ lookupValues (map_of src) k"
proof (induction dst src rule: copyHeaders.induct)
  case (1 dst)
  then show ?case by (simp add: lookupValues_def)
next
  case (2 dst key vals rest)
  from "2.prems" have pr: "parsedHeader rest" and ck: "CanonicalMIMEHeaderKey key = key"
    and fresh: "key \<notin> fst ` set rest"
    by (auto simp: parsedHeader_def)
  from fresh have "map_of rest key = None" by (simp add: map_of_eq_None_iff)
  then have b: "lookupValues (map_of rest) key = []" by (simp add: lookupValues_def)
  have a: "lookupValues (map_of ((key, vals) # rest)) k =
      (if k = key then vals else lookupValues (map_of rest) k)"
    by (simp add: lookupValues_def)
  have "lookupValues (copyHeaders dst ((key, vals) # rest)) k =
      lookupValues dst k @ (if k = key then vals else lookupValues (map_of rest) k)"
    using "2.IH" [OF pr] ck b by (simp add: addValues_lookup)
  then show ?case unfolding a .
qed

lemma copyHeaders_fresh:
  "parsedHeader src \<Longrightarrow> lookupValues (copyHeaders Map.empty src) k = lookupValues (map_of src) k"
  by (simp add: copyHeaders_lookup)

lemma splitLines_Nil_iff [simp]: "splitLines s = [] \<longleftrightarrow> s = []"
  by (cases s) (auto split: list.splits)

lemma ReadBytes_Nil: "ReadBytes d [] = ([], [], False)"
  by simp

lemma ReadBytes_split:
  "s \<noteq> [] \<Longrightarrow> ReadBytes (CHR 0x0A) s = (line, rest, found) \<Longrightarrow>
   line \<noteq> [] \<and> splitLines s = line # (if found then splitLines rest else []) \<and>
   (\<not> found \<longrightarrow> rest = [])"
proof (induction s arbitrary: line rest found)
  case Nil
  then show ?case by simp
next
  case (Cons c s)
  show ?case
  proof (cases "c = CHR 0x0A")
    case True
    with Cons.prems show ?thesis by auto
  next
    case False
    obtain l r f where rb: "ReadBytes (CHR 0x0A) s = (l, r, f)" by (cases "ReadBytes (CHR 0x0A) s") auto
    with False Cons.prems have eq: "line = c # l" "rest = r" "found = f" by auto
    show ?thesis
    proof (cases "s = []")
      case True
      with rb eq False show ?thesis by auto
    next
      case sne: False
      from Cons.IH [OF sne rb] eq False show ?thesis by auto
    qed
  qed
qed

lemma concat_splitLines: "concat (splitLines s) = s"
  by (induction s) (auto split: list.splits)

lemma splitLines_shape:
  "list_all (\<lambda>l. l \<noteq> [] \<and> CHR 0x0A \<notin> set (butlast l)) (splitLines s) \<and>
   list_all (\<lambda>l. last l = CHR 0x0A) (butlast (splitLines s))"
  by (induction s) (auto split: list.splits)

lemma WriteBytes_status:
  "WStatus sw \<noteq> None \<Longrightarrow> WriteBytes sw b = sw\<lparr>WEvents := WEvents sw @ [Write b]\<rparr>"
  by (simp add: WriteBytes_def WriteHeader_def)

lemma streamLines_eq:
  "WStatus sw \<noteq> None \<Longrightarrow>
   streamLines sw chunks body =
     (sw\<lparr>WEvents := WEvents sw @ lineEvents (splitLines body)\<rparr>, chunks @ splitLines body)"
proof (induction sw chunks body rule: streamLines.induct)
  case (1 sw chunks body)
  obtain line rest found where rb: "ReadBytes (CHR 0x0A) body = (line, rest, found)"
    by (cases "ReadBytes (CHR 0x0A) body") auto
  show ?case
  proof (cases "body = []")
    case True
    then show ?thesis by (simp add: lineEvents_def streamLines.simps [of sw chunks "[]"])
  next
    case False
    from ReadBytes_split [OF False rb] have ln: "line \<noteq> []"
      and sp: "splitLines body = line # (if found then splitLines rest else [])" by auto
    let ?sw1 = "FlushWriter (WriteBytes sw line)"
    have sw1: "?sw1 = sw\<lparr>WEvents := WEvents sw @ [Write line, Flush]\<rparr>"
      using "1.prems" by (simp add: WriteBytes_status FlushWriter_def)
    show ?thesis
    proof (cases found)
      case True
      have st: "WStatus ?sw1 \<noteq> None" using "1.prems" by (simp add: sw1)
      have "streamLines sw chunks body = streamLines ?sw1 (chunks @ [line]) rest"
        using rb ln True by (subst streamLines.simps) simp
      also have "\<dots> = (?sw1\<lparr>WEvents := WEvents ?sw1 @ lineEvents (splitLines rest)\<rparr>,
                       (chunks @ [line]) @ splitLines rest)"
        using "1.IH" [OF rb [symmetric] refl _ refl True st] ln by simp
      finally show ?thesis using sp True by (simp add: sw1 lineEvents_def)
    next
      case False
      have "streamLines sw chunks body = (?sw1, chunks @ [line])"
        using rb ln False by (subst streamLines.simps) simp
      then show ?thesis using sp False by (simp add: sw1 lineEvents_def)
    qed
  qed
qed

lemma received_lineEvents: "received (lineEvents ls) = concat ls"
  by (induction ls) (auto simp: lineEvents_def)


lemma streamResponse_writer:
  assumes "parsedHeader (RespHeader resp)"
  shows "fst (streamResponse newResponseWriter resp haveLogger sid provider seq) =
           \<lparr>WHeader = copyHeaders Map.empty (RespHeader resp),
            WStatus = Some (StatusCode resp),
            WEvents = lineEvents (splitLines (RespBody resp))\<rparr>"
proof -
  let ?w2 = "WriteHeader (newResponseWriter\<lparr>WHeader :=
      copyHeaders (WHeader newResponseWriter) (RespHeader resp)\<rparr>) (StatusCode resp)"
  have w2: "?w2 = \<lparr>WHeader = copyHeaders Map.empty (RespHeader resp),
      WStatus = Some (StatusCode resp), WEvents = []\<rparr>"
    by (simp add: WriteHeader_def newResponseWriter_def)
  have "WStatus ?w2 \<noteq> None" by (simp add: w2)
  from streamLines_eq [OF this, of "[]" "RespBody resp"]
  show ?thesis
    by (simp add: streamResponse_def Let_def w2 split: option.splits)
qed

lemma serve_writer:
  assumes "parsed env = Inr (provider, upstream, path)" "ReqBodyErr r = None"
    "newRequestErr env = None"
    "transport env (buildUpstreamRequest r upstream path) = Inr resp"
    "RespBodyErr resp = None"
  shows "writer (ServeHTTP env p newResponseWriter r) =
           \<lparr>WHeader = copyHeaders Map.empty (RespHeader resp),
            WStatus = Some (StatusCode resp),
            WEvents = [Write (RespBody resp)]\<rparr>"
  using assms
  by (simp add: ServeHTTP_def Let_def WriteBytes_def WriteHeader_def newResponseWriter_def
      split: prod.splits)

text \<open>
  What does hold of \<open>ServeHTTP\<close>: when \<open>Do\<close> hands back a response and its body is read
  to the end, the client gets the status code of that response, its body in one write,
  and under every header key its values.
\<close>

lemma ServeHTTP_forwards:
  assumes "parsed env = Inr (provider, upstream, path)" "ReqBodyErr r = None"
    "newRequestErr env = None"
    "transport env (buildUpstreamRequest r upstream path) = Inr resp"
    "RespBodyErr resp = None" "parsedHeader (RespHeader resp)"
  shows "WStatus (writer (ServeHTTP env p newResponseWriter r)) = Some (StatusCode resp)"
    and "WEvents (writer (ServeHTTP env p newResponseWriter r)) = [Write (RespBody resp)]"
    and "received (WEvents (writer (ServeHTTP env p newResponseWriter r))) = RespBody resp"
    and "sameHeaders (WHeader (writer (ServeHTTP env p newResponseWriter r))) (RespHeader resp)"
  using assms by (simp_all add: serve_writer sameHeaders_def copyHeaders_fresh)

text \<open>
  The plan's \<open>streamResponse\<close> does what the claim says of event streams: the status,
  the headers, and then one write and one flush per line of the body, in order, the
  lines being those of the body (each ends at its line feed, the last one at the end of
  the body).
\<close>

lemma streamResponse_line_by_line:
  assumes "parsedHeader (RespHeader resp)"
  shows "WStatus (fst (streamResponse newResponseWriter resp haveLogger sid prov seq))
           = Some (StatusCode resp)"
    and "sameHeaders (WHeader (fst (streamResponse newResponseWriter resp haveLogger sid prov seq)))
           (RespHeader resp)"
    and "WEvents (fst (streamResponse newResponseWriter resp haveLogger sid prov seq))
           = lineEvents (splitLines (RespBody resp))"
    and "received (WEvents (fst (streamResponse newResponseWriter resp haveLogger sid prov seq)))
           = RespBody resp"
  using assms
  by (simp_all add: streamResponse_writer sameHeaders_def copyHeaders_fresh received_lineEvents
      concat_splitLines)

text \<open>
  Claim C1 says that an event stream is forwarded line by line, each line written and
  flushed in order. \<open>ServeHTTP\<close> has one path for every response: it reads the whole body
  and writes it in one piece, without a flush. For an upstream that answers with
  \<open>Content-Type: text/event-stream\<close> and four lines, the client gets one write of the
  whole body where \<open>streamResponse\<close> would give four writes, each followed by a flush.
\<close>

theorem ServeHTTP_buffers_event_stream:
  "isStreamingResponse exampleResponse \<and>
   transport exampleEnv (buildUpstreamRequest exampleRequest ''api.anthropic.com'' ''/v1/messages'')
     = Inr exampleResponse \<and>
   WStatus (writer (ServeHTTP exampleEnv NewProxyWithLogger newResponseWriter exampleRequest))
     = Some 200 \<and>
   WEvents (writer (ServeHTTP exampleEnv NewProxyWithLogger newResponseWriter exampleRequest))
     = [Write (''event: ping'' @ [CHR 0x0A] @ ''data: {}'' @ [CHR 0x0A, CHR 0x0A] @ ''data: [DONE]'')] \<and>
   WEvents (fst (streamResponse newResponseWriter exampleResponse True
       ''20260113-150405-a1b2c3d4'' ''anthropic'' 0))
     = [Write (''event: ping'' @ [CHR 0x0A]), Flush, Write (''data: {}'' @ [CHR 0x0A]), Flush,
        Write [CHR 0x0A], Flush, Write ''data: [DONE]'', Flush]"
  by code_simp

text \<open>
  The bytes themselves differ from the upstream's when the client's request has no
  \<open>Accept-Encoding\<close> header and the upstream compresses: the transport of
  \<open>&http.Client{}\<close> asks for gzip and decompresses, so that the client of the proxy gets
  the 19 decompressed bytes, and neither the \<open>Content-Encoding\<close> nor the
  \<open>Content-Length\<close> header, where the upstream sent 29 bytes.
\<close>

lemma ServeHTTP_decompresses:
  "gzipUpstream ((buildUpstreamRequest exampleRequest ''api.anthropic.com'' ''/v1/messages'')
      \<lparr>UHeader := Header_Set (UHeader (buildUpstreamRequest exampleRequest ''api.anthropic.com''
         ''/v1/messages'')) ''Accept-Encoding'' ''gzip''\<rparr>) = Inr gzipResponse \<and>
   length (RespBody gzipResponse) = 29 \<and>
   WEvents (writer (ServeHTTP gzipEnv NewProxyWithLogger newResponseWriter exampleRequest))
     = [Write ''hello, hello, hello''] \<and>
   WHeader (writer (ServeHTTP gzipEnv NewProxyWithLogger newResponseWriter exampleRequest))
     ''Content-Encoding'' = None \<and>
   WHeader (writer (ServeHTTP gzipEnv NewProxyWithLogger newResponseWriter exampleRequest))
     ''Content-Length'' = None \<and>
   WHeader (writer (ServeHTTP gzipEnv NewProxyWithLogger newResponseWriter exampleRequest))
     ''Content-Type'' = Some [''text/plain'']"
  by code_simp

section \<open>Hop-by-hop headers\<close>

text \<open>
  Claim C5 says that the hop-by-hop headers are never forwarded. \<open>copyHeaders\<close> has no
  filter: a request with \<open>Proxy-Authorization\<close> and \<open>Connection\<close> headers is sent
  upstream with both. The host of the upstream request is the upstream host, as the
  claim says.
\<close>

theorem buildUpstreamRequest_forwards_hop_by_hop:
  "lookupValues (UHeader (buildUpstreamRequest exampleRequest ''api.anthropic.com''
      ''/v1/messages'')) ''Proxy-Authorization'' = [''Basic dXNlcjpwYXNz''] \<and>
   lookupValues (UHeader (buildUpstreamRequest exampleRequest ''api.anthropic.com''
      ''/v1/messages'')) ''Connection'' = [''keep-alive''] \<and>
   ''Proxy-Authorization'' \<in> set hopByHop \<and> ''Connection'' \<in> set hopByHop \<and>
   UHost (buildUpstreamRequest exampleRequest ''api.anthropic.com'' ''/v1/messages'')
     = ''api.anthropic.com''"
  by code_simp

section \<open>Sequence numbers of the forwarder\<close>

text \<open>
  Claim C3 says that the first request of a session is logged with sequence number 1.
  \<open>Proxy.nextSeq\<close> returns the stored number before it increments it, so on a new
  session it returns 0, and \<open>ServeHTTP\<close> logs the request and its response with
  sequence number 0; the second call for the same session returns 1. (The session
  manager of session.go does start at 1 and continues with \<open>last_seq + 1\<close>: see the
  last section.)
\<close>

theorem nextSeq_starts_at_zero:
  "fst (nextSeq NewProxyWithLogger ''20260113-150405-a1b2c3d4'') = 0 \<and>
   fst (nextSeq (snd (nextSeq NewProxyWithLogger ''20260113-150405-a1b2c3d4''))
          ''20260113-150405-a1b2c3d4'') = 1 \<and>
   logged (ServeHTTP exampleEnv NewProxyWithLogger newResponseWriter exampleRequest) =
     [SessionStartCall ''20260113-150405-a1b2c3d4'' ''anthropic'' ''api.anthropic.com'',
      RequestCall ''20260113-150405-a1b2c3d4'' ''anthropic'' 0 ''POST'' ''/v1/messages''
        (ReqHeader exampleRequest) ''{}'',
      ResponseCall ''20260113-150405-a1b2c3d4'' ''anthropic'' 0 200
        (RespHeader exampleResponse) (RespBody exampleResponse)]"
  by code_simp

section \<open>The exporter's queue and counters\<close>

lemma Push_queued:
  "Push parseTime now e ent prov =
     (if int (length (entryChan e)) < BufferSize (config e)
      then e\<lparr>entryChan := entryChan e @ [queuedEntry parseTime now ent prov]\<rparr>
      else e\<lparr>entriesDropped := entriesDropped e + 1\<rparr>)"
  by (simp add: Push_def queuedEntry_def metaString_def stringField_def Let_def
      split: option.splits)

text \<open>
  Claim C6. \<open>Push\<close> returns at once in either case: when the channel is full the entry is
  dropped (the queue and the other counters stay as they are) and \<open>entriesDropped\<close> grows
  by one; otherwise the entry is queued, nothing is counted, and the queued entry has
  the pushed entry and provider, the time stamp parsed from \<open>_meta.ts\<close> when that is a
  string that parses as RFC3339Nano and the current time otherwise, the log type from
  \<open>type\<close> and the machine from \<open>_meta.machine\<close>, each \<open>unknown\<close> when absent.
\<close>

theorem Push_spec:
  "(BufferSize (config e) \<le> int (length (entryChan e)) \<longrightarrow>
      Push parseTime now e ent prov = e\<lparr>entriesDropped := entriesDropped e + 1\<rparr>) \<and>
   (int (length (entryChan e)) < BufferSize (config e) \<longrightarrow>
      (\<exists>le. Push parseTime now e ent prov = e\<lparr>entryChan := entryChan e @ [le]\<rparr> \<and>
         leEntry le = ent \<and> leProvider le = prov \<and>
         leTimestamp le =
           (case metaString ent ''ts'' of
              Some t \<Rightarrow> (case parseTime t of Some tm \<Rightarrow> tm | None \<Rightarrow> now)
            | None \<Rightarrow> now) \<and>
         leLogType le = (case stringField ent ''type'' of Some t \<Rightarrow> t | None \<Rightarrow> ''unknown'') \<and>
         leMachine le = (case metaString ent ''machine'' of Some m \<Rightarrow> m | None \<Rightarrow> ''unknown'')))"
proof (intro conjI impI)
  assume "BufferSize (config e) \<le> int (length (entryChan e))"
  then show "Push parseTime now e ent prov = e\<lparr>entriesDropped := entriesDropped e + 1\<rparr>"
    by (simp add: Push_queued)
next
  assume room: "int (length (entryChan e)) < BufferSize (config e)"
  let ?le = "queuedEntry parseTime now ent prov"
  have "Push parseTime now e ent prov = e\<lparr>entryChan := entryChan e @ [?le]\<rparr>"
    using room by (simp add: Push_queued)
  then show "\<exists>le. Push parseTime now e ent prov = e\<lparr>entryChan := entryChan e @ [le]\<rparr> \<and>
         leEntry le = ent \<and> leProvider le = prov \<and>
         leTimestamp le =
           (case metaString ent ''ts'' of
              Some t \<Rightarrow> (case parseTime t of Some tm \<Rightarrow> tm | None \<Rightarrow> now)
            | None \<Rightarrow> now) \<and>
         leLogType le = (case stringField ent ''type'' of Some t \<Rightarrow> t | None \<Rightarrow> ''unknown'') \<and>
         leMachine le = (case metaString ent ''machine'' of Some m \<Rightarrow> m | None \<Rightarrow> ''unknown'')"
    by (intro exI [of _ ?le]) (simp add: queuedEntry_def)
qed

lemma groupEntries_failed:
  "snd (groupEntries cfg ss f es) = f + of_nat (length (filter (\<lambda>le. \<not> serialisable le) es))"
  by (induction cfg ss f es rule: groupEntries.induct) (auto simp: Let_def serialisable_def)

lemma sendBatch_counts:
  "entriesSent (sendBatch net e es) + entriesFailed (sendBatch net e es) =
     entriesSent e + entriesFailed e + of_nat (length es)
       + of_nat (length (filter (\<lambda>le. \<not> serialisable le) es))"
  "entriesDropped (sendBatch net e es) = entriesDropped e"
  "entryChan (sendBatch net e es) = entryChan e"
  "batch (sendBatch net e es) = batch e"
  "config (sendBatch net e es) = config e"
  "workerDone (sendBatch net e es) = workerDone e"
  "closeCalled (sendBatch net e es) = closeCalled e"
  using groupEntries_failed [of "config e" "[]" "entriesFailed e" es]
  by (auto simp: sendBatch_def Let_def split: prod.splits)


lemma accounted_Push:
  "accounted (Push parseTime now e ent prov) = accounted e + 1"
  by (simp add: Push_queued accounted_def)

lemma serialisable_Push:
  "queueSerialisable e \<Longrightarrow> marshalable (JMap ent) \<Longrightarrow>
   queueSerialisable (Push parseTime now e ent prov)"
  by (simp add: Push_queued queueSerialisable_def serialisable_def queuedEntry_def)

lemma workerDone_Push [simp]: "workerDone (Push parseTime now e ent prov) = workerDone e"
  by (simp add: Push_queued)

lemma closeCalled_Push [simp]: "closeCalled (Push parseTime now e ent prov) = closeCalled e"
  by (simp add: Push_queued)

lemma filter_not_serialisable: "list_all serialisable es \<Longrightarrow> filter (\<lambda>le. \<not> serialisable le) es = []"
  by (induction es) auto

lemma accounted_sendBatch:
  assumes "list_all serialisable es"
  shows "accounted (sendBatch net e es) = accounted e + of_nat (length es)"
proof -
  have "entriesSent (sendBatch net e es) + entriesFailed (sendBatch net e es) =
      entriesSent e + entriesFailed e + of_nat (length es)"
    using sendBatch_counts(1) [of net e es] filter_not_serialisable [OF assms] by simp
  then show ?thesis
    by (simp add: accounted_def sendBatch_counts)
qed

lemma accounted_receive:
  assumes "queueSerialisable e"
  shows "accounted (receive net e) = accounted e \<and> queueSerialisable (receive net e) \<and>
         workerDone (receive net e) = workerDone e \<and> closeCalled (receive net e) = closeCalled e"
proof (cases "entryChan e")
  case Nil
  with assms show ?thesis by (simp add: receive_def)
next
  case (Cons le rest)
  let ?e1 = "e\<lparr>entryChan := rest, batch := batch e @ [le]\<rparr>"
  have ser: "list_all serialisable (batch ?e1)" "list_all serialisable rest"
    using assms Cons by (auto simp: queueSerialisable_def)
  have a1: "accounted ?e1 = accounted e" using Cons by (simp add: accounted_def)
  show ?thesis
  proof (cases "BatchSize (config ?e1) \<le> int (length (batch ?e1))")
    case True
    let ?e2 = "(sendBatch net ?e1 (batch ?e1))\<lparr>batch := []\<rparr>"
    have r: "receive net e = ?e2" using Cons True by (simp add: receive_def Let_def)
    have "accounted ?e2 = accounted (sendBatch net ?e1 (batch ?e1)) - of_nat (length (batch ?e1))"
      by (simp add: accounted_def sendBatch_counts)
    also have "\<dots> = accounted ?e1" using accounted_sendBatch [OF ser(1)] by simp
    finally have "accounted ?e2 = accounted e" using a1 by simp
    moreover have "queueSerialisable ?e2" using ser(2)
      by (simp add: queueSerialisable_def sendBatch_counts)
    moreover have "workerDone ?e2 = workerDone e" "closeCalled ?e2 = closeCalled e"
      by (simp_all add: sendBatch_counts)
    ultimately show ?thesis unfolding r by simp
  next
    case False
    then have r: "receive net e = ?e1" using Cons by (simp add: receive_def Let_def)
    have "queueSerialisable ?e1" using ser by (simp add: queueSerialisable_def)
    with a1 show ?thesis unfolding r by simp
  qed
qed

lemma accounted_tick:
  assumes "queueSerialisable e"
  shows "accounted (tick net e) = accounted e \<and> queueSerialisable (tick net e) \<and>
         workerDone (tick net e) = workerDone e \<and> closeCalled (tick net e) = closeCalled e"
proof (cases "batch e = []")
  case True
  with assms show ?thesis by (simp add: tick_def)
next
  case False
  let ?e2 = "(sendBatch net e (batch e))\<lparr>batch := []\<rparr>"
  have ser: "list_all serialisable (batch e)" "list_all serialisable (entryChan e)"
    using assms by (auto simp: queueSerialisable_def)
  have r: "tick net e = ?e2" using False by (simp add: tick_def)
  have "accounted ?e2 = accounted (sendBatch net e (batch e)) - of_nat (length (batch e))"
    by (simp add: accounted_def sendBatch_counts)
  also have "\<dots> = accounted e" using accounted_sendBatch [OF ser(1)] by simp
  finally have "accounted ?e2 = accounted e" .
  moreover have "queueSerialisable ?e2" using ser(2)
    by (simp add: queueSerialisable_def sendBatch_counts)
  moreover have "workerDone ?e2 = workerDone e" "closeCalled ?e2 = closeCalled e"
    by (simp_all add: sendBatch_counts)
  ultimately show ?thesis unfolding r by simp
qed

lemma accounted_workerExit:
  assumes "queueSerialisable e"
  shows "accounted (workerExit net e) = accounted e \<and> queueSerialisable (workerExit net e)"
proof -
  let ?d = "e\<lparr>entryChan := [], batch := batch e @ entryChan e\<rparr>"
  have ser: "list_all serialisable (batch ?d)"
    using assms by (auto simp: queueSerialisable_def)
  have ad: "accounted ?d = accounted e" by (simp add: accounted_def)
  show ?thesis
  proof (cases "batch ?d = []")
    case True
    then have "workerExit net e = ?d\<lparr>batch := [], workerDone := True\<rparr>"
      by (simp add: workerExit_def Let_def)
    then show ?thesis using True by (simp add: accounted_def queueSerialisable_def)
  next
    case ne: False
    let ?e2 = "(sendBatch net ?d (batch ?d))\<lparr>batch := [], workerDone := True\<rparr>"
    have r: "workerExit net e = ?e2" using ne by (simp add: workerExit_def Let_def)
    have "accounted ?e2 = accounted (sendBatch net ?d (batch ?d)) - of_nat (length (batch ?d))"
      by (simp add: accounted_def sendBatch_counts)
    also have "\<dots> = accounted ?d" using accounted_sendBatch [OF ser] by simp
    finally have "accounted ?e2 = accounted e" using ad by simp
    moreover have "queueSerialisable ?e2"
      by (simp add: queueSerialisable_def sendBatch_counts)
    ultimately show ?thesis unfolding r by simp
  qed
qed

lemma workerExit_empties:
  "entryChan (workerExit net e) = [] \<and> batch (workerExit net e) = [] \<and>
   workerDone (workerExit net e) \<and> closeCalled (workerExit net e) = closeCalled e"
  by (simp add: workerExit_def Let_def sendBatch_counts)

text \<open>
  What \<open>Close\<close> returns and leaves behind, on an exporter that has not been closed.
  Without error the exporter is drained and its worker has left the loop; with an error,
  which is the shutdown timeout, the exporter is as it was (the queue, the batch and the
  counters), but for \<open>closeChan\<close>, and its worker is still in the loop.
\<close>

lemma Close_result:
  assumes "\<not> closeCalled e" "\<not> workerDone e"
  shows "(snd (Close net inTime e) = None \<longleftrightarrow> inTime) \<and>
    (snd (Close net inTime e) = None \<longrightarrow>
       fst (Close net inTime e) = workerExit net (e\<lparr>closeCalled := True\<rparr>) \<and>
       entryChan (fst (Close net inTime e)) = [] \<and> batch (fst (Close net inTime e)) = [] \<and>
       workerDone (fst (Close net inTime e))) \<and>
    (snd (Close net inTime e) \<noteq> None \<longrightarrow>
       snd (Close net inTime e) = Some ShutdownTimeoutError \<and>
       fst (Close net inTime e) = e\<lparr>closeCalled := True\<rparr>)"
  using assms by (simp add: Close_def Let_def workerExit_empties)

lemma accounted_Close:
  assumes "queueSerialisable e"
  shows "accounted (fst (Close net inTime e)) = accounted e \<and>
         queueSerialisable (fst (Close net inTime e))"
proof -
  have q: "queueSerialisable (e\<lparr>closeCalled := True\<rparr>)"
    using assms by (simp add: queueSerialisable_def)
  have a: "accounted (e\<lparr>closeCalled := True\<rparr>) = accounted e" by (simp add: accounted_def)
  from accounted_workerExit [OF q, of net] assms a q show ?thesis
    by (simp add: Close_def Let_def)
qed

lemma exporterRun_accounted:
  "queueSerialisable e \<Longrightarrow> pushedSerialisable evs \<Longrightarrow>
   accounted (exporterRun parseTime net e evs) = accounted e + of_nat (pushCount evs) \<and>
   queueSerialisable (exporterRun parseTime net e evs) \<and>
   (\<not> closeCalled e \<and> CloseCall \<notin> set evs \<and> CloseTimeout \<notin> set evs \<longrightarrow>
      workerDone (exporterRun parseTime net e evs) = workerDone e \<and>
      \<not> closeCalled (exporterRun parseTime net e evs))"
proof (induction evs arbitrary: e)
  case Nil
  then show ?case by (simp add: exporterRun_def)
next
  case (Cons ev evs)
  let ?e1 = "exporterStep parseTime net e ev"
  have run: "exporterRun parseTime net e (ev # evs) = exporterRun parseTime net ?e1 evs"
    by (simp add: exporterRun_def)
  have step: "accounted ?e1 = accounted e + of_nat (pushCount [ev]) \<and> queueSerialisable ?e1 \<and>
      (\<not> closeCalled e \<and> ev \<noteq> CloseCall \<and> ev \<noteq> CloseTimeout \<longrightarrow>
         workerDone ?e1 = workerDone e \<and> \<not> closeCalled ?e1)"
  proof (cases ev)
    case (PushCall ent prov now)
    with Cons.prems show ?thesis
      by (simp add: exporterStep_def accounted_Push serialisable_Push)
  next
    case Receive
    with Cons.prems(1) accounted_receive [of e net] show ?thesis
      by (simp add: exporterStep_def)
  next
    case Tick
    with Cons.prems(1) accounted_tick [of e net] show ?thesis
      by (simp add: exporterStep_def)
  next
    case CloseCall
    with Cons.prems(1) accounted_Close [of e net True] show ?thesis
      by (simp add: exporterStep_def)
  next
    case CloseTimeout
    with Cons.prems(1) accounted_Close [of e net False] show ?thesis
      by (simp add: exporterStep_def)
  next
    case WorkerExit
    with Cons.prems(1) accounted_workerExit [of e net] show ?thesis
      by (simp add: exporterStep_def)
  qed
  have ps: "pushedSerialisable evs" using Cons.prems(2) by (cases ev) auto
  have pc: "pushCount (ev # evs) = pushCount [ev] + pushCount evs" by (cases ev) auto
  from Cons.IH [of ?e1] step ps
  show ?case unfolding run pc by (auto simp: algebra_simps)
qed

text \<open>
  When every pushed entry can be serialised, the counters add up after a \<open>Close\<close> that
  the worker answers in time: each push is counted once, as sent, failed or dropped.
\<close>

lemma accounting_serialisable:
  assumes new: "NewLokiExporter cfg = Inr e0"
    and ser: "pushedSerialisable evs"
    and noclose: "CloseCall \<notin> set evs" "CloseTimeout \<notin> set evs"
  shows "entriesSent (exporterRun parseTime net e0 (evs @ [CloseCall]))
       + entriesFailed (exporterRun parseTime net e0 (evs @ [CloseCall]))
       + entriesDropped (exporterRun parseTime net e0 (evs @ [CloseCall]))
       = of_nat (pushCount evs)"
proof -
  from new have e0: "entryChan e0 = []" "batch e0 = []" "\<not> workerDone e0"
    "entriesSent e0 = 0" "entriesFailed e0 = 0" "entriesDropped e0 = 0" "\<not> closeCalled e0"
    by (auto simp: NewLokiExporter_def Let_def split: if_splits)
  then have q0: "queueSerialisable e0" and a0: "accounted e0 = 0"
    by (simp_all add: queueSerialisable_def accounted_def)
  let ?e1 = "exporterRun parseTime net e0 evs"
  from exporterRun_accounted [OF q0 ser, of parseTime net] noclose e0(3) e0(7)
  have a1: "accounted ?e1 = of_nat (pushCount evs)" and q1: "queueSerialisable ?e1"
    and w1: "\<not> workerDone ?e1" and c1: "\<not> closeCalled ?e1"
    using a0 by auto
  have fin: "exporterRun parseTime net e0 (evs @ [CloseCall]) = fst (Close net True ?e1)"
    by (simp add: exporterRun_def exporterStep_def)
  have inTime: "snd (Close net True ?e1) = None"
    using Close_result [OF c1 w1, of net True] by simp
  with Close_result [OF c1 w1, of net True]
  have em: "entryChan (fst (Close net True ?e1)) = []" "batch (fst (Close net True ?e1)) = []"
    by blast+
  from accounted_Close [OF q1, of net True] a1
  have "accounted (fst (Close net True ?e1)) = of_nat (pushCount evs)" by simp
  then show ?thesis unfolding fin accounted_def em by simp
qed

text \<open>
  The same holds when \<open>Close\<close> runs into the shutdown timeout, once the worker has left
  its loop; when \<open>Close\<close> returns, nothing of what was queued has been counted.
\<close>

lemma accounting_after_timeout:
  assumes new: "NewLokiExporter cfg = Inr e0"
    and ser: "pushedSerialisable evs"
    and noclose: "CloseCall \<notin> set evs" "CloseTimeout \<notin> set evs"
  shows "exporterRun parseTime net e0 (evs @ [CloseTimeout]) =
           (exporterRun parseTime net e0 evs)\<lparr>closeCalled := True\<rparr>"
    and "entriesSent (exporterRun parseTime net e0 (evs @ [CloseTimeout, WorkerExit]))
       + entriesFailed (exporterRun parseTime net e0 (evs @ [CloseTimeout, WorkerExit]))
       + entriesDropped (exporterRun parseTime net e0 (evs @ [CloseTimeout, WorkerExit]))
       = of_nat (pushCount evs)"
proof -
  from new have e0: "entryChan e0 = []" "batch e0 = []" "\<not> workerDone e0"
    "entriesSent e0 = 0" "entriesFailed e0 = 0" "entriesDropped e0 = 0" "\<not> closeCalled e0"
    by (auto simp: NewLokiExporter_def Let_def split: if_splits)
  then have q0: "queueSerialisable e0" and a0: "accounted e0 = 0"
    by (simp_all add: queueSerialisable_def accounted_def)
  let ?e1 = "exporterRun parseTime net e0 evs"
  from exporterRun_accounted [OF q0 ser, of parseTime net] noclose e0(3) e0(7)
  have a1: "accounted ?e1 = of_nat (pushCount evs)" and q1: "queueSerialisable ?e1"
    and w1: "\<not> workerDone ?e1" and c1: "\<not> closeCalled ?e1"
    using a0 by auto
  let ?e2 = "?e1\<lparr>closeCalled := True\<rparr>"
  show t: "exporterRun parseTime net e0 (evs @ [CloseTimeout]) = ?e2"
    using Close_result [OF c1 w1, of net False] by (simp add: exporterRun_def exporterStep_def)
  have q2: "queueSerialisable ?e2" using q1 by (simp add: queueSerialisable_def)
  have a2: "accounted ?e2 = of_nat (pushCount evs)" using a1 by (simp add: accounted_def)
  have "exporterRun parseTime net e0 (evs @ [CloseTimeout, WorkerExit]) =
      exporterStep parseTime net (exporterRun parseTime net e0 (evs @ [CloseTimeout])) WorkerExit"
    by (simp add: exporterRun_def)
  also have "\<dots> = workerExit net ?e2" unfolding t using w1 by (simp add: exporterStep_def)
  finally have fin: "exporterRun parseTime net e0 (evs @ [CloseTimeout, WorkerExit]) =
      workerExit net ?e2" .
  from accounted_workerExit [OF q2, of net] a2 workerExit_empties [of net ?e2]
  show "entriesSent (exporterRun parseTime net e0 (evs @ [CloseTimeout, WorkerExit]))
       + entriesFailed (exporterRun parseTime net e0 (evs @ [CloseTimeout, WorkerExit]))
       + entriesDropped (exporterRun parseTime net e0 (evs @ [CloseTimeout, WorkerExit]))
       = of_nat (pushCount evs)"
    unfolding fin by (simp add: accounted_def)
qed

theorem Push_spec_witness:
  "int (length (entryChan exampleExporter)) < BufferSize (config exampleExporter) \<and>
   (\<exists>le. Push (\<lambda>t. Some 7) 5 exampleExporter exampleEntry ''anthropic''
            = exampleExporter\<lparr>entryChan := entryChan exampleExporter @ [le]\<rparr> \<and>
         leEntry le = exampleEntry \<and> leProvider le = ''anthropic'' \<and>
         leTimestamp le = 7 \<and> leLogType le = ''request'' \<and> leMachine le = ''drew@macbook'')"
proof -
  have room: "int (length (entryChan exampleExporter)) < BufferSize (config exampleExporter)"
    by (simp add: exampleExporter_def)
  have f: "metaString exampleEntry ''ts'' = Some ''2026-01-23T15:04:05Z''"
    "stringField exampleEntry ''type'' = Some ''request''"
    "metaString exampleEntry ''machine'' = Some ''drew@macbook''"
    by (simp_all add: metaString_def stringField_def asMap_def asString_def exampleEntry_def)
  from Push_spec [of exampleExporter "\<lambda>t. Some 7" 5 exampleEntry "''anthropic''",
      THEN conjunct2, rule_format, OF room]
  show ?thesis using room unfolding f by simp
qed

text \<open>
  Claim C8 says that after \<open>Close\<close> the counters add up to the number of pushes for every
  workload, also with entries that cannot be serialised. One push of such an entry,
  then \<open>Close\<close>: \<open>sendBatch\<close> counts the entry as failed when its serialisation fails
  and counts it again with the batch, as sent when the post succeeds and as failed when
  every attempt fails. The counters add up to 2 for 1 push.
\<close>

theorem sendBatch_counts_unserialisable_twice:
  "pushCount [PushCall unserialisableEntry ''anthropic'' 5, CloseCall] = 1 \<and>
   entriesSent (exporterRun (\<lambda>t. None) (\<lambda>n request. True) exampleExporter
      [PushCall unserialisableEntry ''anthropic'' 5, CloseCall]) = 1 \<and>
   entriesFailed (exporterRun (\<lambda>t. None) (\<lambda>n request. True) exampleExporter
      [PushCall unserialisableEntry ''anthropic'' 5, CloseCall]) = 1 \<and>
   entriesDropped (exporterRun (\<lambda>t. None) (\<lambda>n request. True) exampleExporter
      [PushCall unserialisableEntry ''anthropic'' 5, CloseCall]) = 0 \<and>
   entriesSent (exporterRun (\<lambda>t. None) (\<lambda>n request. False) exampleExporter
      [PushCall unserialisableEntry ''anthropic'' 5, CloseCall]) = 0 \<and>
   entriesFailed (exporterRun (\<lambda>t. None) (\<lambda>n request. False) exampleExporter
      [PushCall unserialisableEntry ''anthropic'' 5, CloseCall]) = 2 \<and>
   entriesDropped (exporterRun (\<lambda>t. None) (\<lambda>n request. False) exampleExporter
      [PushCall unserialisableEntry ''anthropic'' 5, CloseCall]) = 0"
  by code_simp


section \<open>The fan-out writer's order of calls\<close>






section \<open>Error recovery across turns\<close>

lemma turnStarts_simps [simp]:
  "turnStarts [] = []"
  "turnStarts (TurnStart depth recovered # es) = (depth, recovered) # turnStarts es"
  "turnStarts (TurnEnd sr ir et pd td # es) = turnStarts es"
  "turnStarts (ToolCallEvent tn ti tid # es) = turnStarts es"
  "turnStarts (ToolResultEvent tid tn ie # es) = turnStarts es"
  by (simp_all add: turnStarts_def)

lemma ClearMatchedToolID_frame:
  "ClearMatchedToolID state k = (name, state1) \<Longrightarrow>
   TurnCount state1 = TurnCount state \<and> LastWasError state1 = LastWasError state"
  by (auto simp: ClearMatchedToolID_def split: option.splits)

lemma foldToolResults_frame:
  "foldToolResults state acc rs = (state1, anyError, events) \<Longrightarrow>
   TurnCount state1 = TurnCount state \<and> LastWasError state1 = LastWasError state \<and>
   anyError = (acc \<or> anyIsError rs) \<and> turnStarts events = [] \<and>
   length events = length rs"
proof (induction state acc rs arbitrary: state1 anyError events rule: foldToolResults.induct)
  case (1 state anyError)
  then show ?case by (simp add: anyIsError_def)
next
  case (2 state acc r rs)
  obtain name st1 where c: "ClearMatchedToolID state (ToolUseID r) = (name, st1)"
    by (cases "ClearMatchedToolID state (ToolUseID r)") auto
  obtain st2 any2 evs2 where f: "foldToolResults st1 (acc \<or> IsError r) rs = (st2, any2, evs2)"
    by (cases "foldToolResults st1 (acc \<or> IsError r) rs") auto
  from "2.prems" c f have eq: "state1 = st2" "anyError = any2"
    "events = ToolResultEvent (ToolUseID r) name (IsError r) # evs2"
    by auto
  from "2.IH" [OF c [symmetric] f] ClearMatchedToolID_frame [OF c]
  show ?case unfolding eq by (auto simp: anyIsError_def)
qed

lemma recordToolCalls_frame:
  "recordToolCalls state cs = (state1, events) \<Longrightarrow>
   TurnCount state1 = TurnCount state \<and> LastWasError state1 = LastWasError state \<and>
   turnStarts events = []"
proof (induction state cs arbitrary: state1 events rule: recordToolCalls.induct)
  case (1 state)
  then show ?case by simp
next
  case (2 state c cs)
  let ?st = "state\<lparr>PendingToolIDs := (PendingToolIDs state)(CallToolID c \<mapsto> CallToolName c)\<rparr>"
  obtain st1 evs1 where r: "recordToolCalls ?st cs = (st1, evs1)"
    by (cases "recordToolCalls ?st cs") auto
  from "2.prems" r have eq: "state1 = st1"
    "events = ToolCallEvent (CallToolName c) (ToolIndex c) (CallToolID c) # evs1"
    by auto
  from "2.IH" [OF r] show ?case unfolding eq by auto
qed

lemma ComputePatterns_frame:
  "ComputePatterns state name = (state1, r) \<Longrightarrow>
   TurnCount state1 = TurnCount state \<and> LastWasError state1 = LastWasError state"
  by (auto simp: ComputePatterns_def Let_def split: if_splits)

lemma turnStarts_append [simp]: "turnStarts (xs @ ys) = turnStarts xs @ turnStarts ys"
  by (simp add: turnStarts_def)

lemma processTurn_start:
  assumes "processTurn state results content stopReason errorType tokens = (state', events)"
  shows "turnStarts events = [(TurnCount state + 1, LastWasError state)]"
    and "LastWasError state' = anyIsError results"
    and "TurnCount state' = TurnCount state + 1"
    and "\<exists>resultEvents rest. events = resultEvents @ TurnStart (TurnCount state + 1)
            (LastWasError state) # rest \<and> length resultEvents = length results \<and>
            turnStarts resultEvents = []"
proof -
  obtain st1 any1 evs1 where f: "foldToolResults state False results = (st1, any1, evs1)"
    by (cases "foldToolResults state False results") auto
  let ?s1 = "st1\<lparr>LastWasError := any1\<rparr>"
  let ?calls = "extractToolCalls content"
  obtain st2 evs2 where r: "recordToolCalls ?s1 ?calls = (st2, evs2)"
    by (cases "recordToolCalls ?s1 ?calls") auto
  obtain st3 retry3 where c: "ComputePatterns st2 (firstToolName ?calls) = (st3, retry3)"
    by (cases "ComputePatterns st2 (firstToolName ?calls)") auto
  note ff = foldToolResults_frame [OF f]
  note rf = recordToolCalls_frame [OF r]
  note cf = ComputePatterns_frame [OF c]
  from assms f r c have ev: "events = evs1 @ [TurnStart (TurnCount ?s1 + 1) (LastWasError state)]
      @ evs2 @ [TurnEnd stopReason retry3 errorType
          \<lparr>PTurnCount = TurnCount st3 + 1,
           PSessionToolCount = SessionToolCount st3 + of_nat (length ?calls),
           PToolStreak = ToolStreak st3, PRetryCount = RetryCount st3\<rparr> tokens]"
    and st: "state' = st3\<lparr>SessionToolCount := SessionToolCount st3 + of_nat (length ?calls),
       TurnCount := TurnCount st3 + 1\<rparr>"
    by (auto simp: processTurn_def processToolResultsAndEmitEvents_def Let_def)
  have tc: "TurnCount ?s1 = TurnCount state" using ff by simp
  show "turnStarts events = [(TurnCount state + 1, LastWasError state)]"
    unfolding ev using ff rf tc by simp
  show "LastWasError state' = anyIsError results"
    unfolding st using ff rf cf by simp
  show "TurnCount state' = TurnCount state + 1"
    unfolding st using ff rf cf by simp
  show "\<exists>resultEvents rest. events = resultEvents @ TurnStart (TurnCount state + 1)
            (LastWasError state) # rest \<and> length resultEvents = length results \<and>
            turnStarts resultEvents = []"
    unfolding ev using ff tc by auto
qed

lemma fold_sets_last_was_error:
  "LastWasError (fst (processToolResultsAndEmitEvents state results)) = anyIsError results"
proof -
  obtain st1 any1 evs1 where f: "foldToolResults state False results = (st1, any1, evs1)"
    by (cases "foldToolResults state False results") auto
  from foldToolResults_frame [OF f] f show ?thesis
    by (simp add: processToolResultsAndEmitEvents_def Let_def)
qed

text \<open>
  Claim C2, as stated: the fold sets \<open>last_was_error\<close> before \<open>turn_start\<close> is emitted, and
  the emitted \<open>error_recovered\<close> is \<open>pattern.last_was_error\<close>. In the second turn of
  \<open>TestErrorRecoveredFlag\<close> the request carries an \<open>is_error\<close> tool result: the fold has
  set \<open>last_was_error\<close> to true when \<open>turn_start\<close> is emitted, and the event says
  \<open>error_recovered = false\<close>; the third turn's event says true.
\<close>

theorem error_recovered_not_current_flag_counterexample:
  "LastWasError (fst (processToolResultsAndEmitEvents (fst turn1)
      [\<lparr>ToolUseID = ''tool_err'', IsError = True\<rparr>])) = True \<and>
   turnStarts (snd turn1) = [(1, False)] \<and>
   turnStarts (snd turn2) = [(2, False)] \<and>
   turnStarts (snd turn3) = [(3, True)]"
  by code_simp

text \<open>
  Claim C2, amended. On every cycle the fold of the request's tool results sets
  \<open>last_was_error\<close> to the OR of their \<open>is_error\<close> flags, and its \<open>tool_result\<close> events come
  before \<open>turn_start\<close>; exactly one \<open>turn_start\<close> is emitted, with \<open>turn_depth\<close> equal to
  \<open>turn_count + 1\<close> and \<open>error_recovered\<close> equal to the value \<open>last_was_error\<close> had when the
  cycle began, that is, the value the previous turn's fold left. So a turn whose own
  request contains an \<open>is_error\<close> tool result marks the \<open>error_recovered\<close> of the turn
  that follows, not its own.
\<close>

theorem turn_start_error_recovered:
  assumes "processTurn state results content stopReason errorType tokens = (state', events)"
    and "processTurn state' results2 content2 stopReason2 errorType2 tokens2 = (state'', events2)"
  shows "LastWasError (fst (processToolResultsAndEmitEvents state results)) = anyIsError results \<and>
         (\<exists>resultEvents rest. events = resultEvents @ TurnStart (TurnCount state + 1)
            (LastWasError state) # rest \<and> length resultEvents = length results \<and>
            turnStarts resultEvents = []) \<and>
         turnStarts events = [(TurnCount state + 1, LastWasError state)] \<and>
         turnStarts events2 = [(TurnCount state + 2, anyIsError results)]"
proof -
  note a = processTurn_start [OF assms(1)]
  note b = processTurn_start [OF assms(2)]
  have "TurnCount state' + 1 = TurnCount state + 2" using a(3) by simp
  with b(1) a(2) have "turnStarts events2 = [(TurnCount state + 2, anyIsError results)]" by simp
  with a(1) a(4) fold_sets_last_was_error [of state results] show ?thesis by blast
qed

theorem turn_start_error_recovered_witness:
  "turnStarts (snd turn2) = [(TurnCount (fst turn1) + 1, LastWasError (fst turn1))] \<and>
   turnStarts (snd turn3) =
     [(TurnCount (fst turn1) + 2, anyIsError [\<lparr>ToolUseID = ''tool_err'', IsError = True\<rparr>])]"
proof -
  have t2: "processTurn (fst turn1) [\<lparr>ToolUseID = ''tool_err'', IsError = True\<rparr>]
      (bashCall ''tool_retry'') ''tool_use'' [] \<lparr>InputTokens = 15, OutputTokens = 10\<rparr>
      = (fst turn2, snd turn2)"
    by (simp add: turn2_def)
  have t3: "processTurn (fst turn2) [\<lparr>ToolUseID = ''tool_retry'', IsError = False\<rparr>]
      doneText ''end_turn'' [] \<lparr>InputTokens = 20, OutputTokens = 5\<rparr> = (fst turn3, snd turn3)"
    by (simp add: turn3_def)
  from turn_start_error_recovered [OF t2 t3] show ?thesis by blast
qed

section \<open>Properties of the session manager\<close>

lemma find_client:
  "find (\<lambda>row. sessionClientID (snd row) = c) db = Some row \<Longrightarrow>
   row \<in> set db \<and> sessionClientID (snd row) = c"
  by (induction db) (auto split: if_splits)

text \<open>
  A request that continues a client session gets the stored \<open>last_seq\<close> plus one, is
  not new, and leaves that number stored.
\<close>

lemma continue_session:
  assumes wf: "wellFormedDB db" and c: "c \<noteq> []"
    and f: "find (\<lambda>row. sessionClientID (snd row) = c) db = Some (sid, s)"
    and ne: "sid \<noteq> []"
  shows "\<exists>db1 s1. GetOrCreateSession env db c prov upstream = (db1, Inr (sid, lastSeq s + 1, False)) \<and>
     wellFormedDB db1 \<and>
     find (\<lambda>row. sessionClientID (snd row) = c) db1 = Some (sid, s1) \<and> lastSeq s1 = lastSeq s + 1"
proof -
  from find_client [OF f] have mem: "(sid, s) \<in> set db" by simp
  with wf have mo: "map_of db sid = Some s" by (simp add: wellFormedDB_def)
  from mem have dom: "sid \<in> fst ` set db" by force
  let ?upd = "\<lambda>row. if fst row = sid then (sid, (snd row)\<lparr>lastSeq := lastSeq s + 1\<rparr>) else row"
  let ?db1 = "map ?upd db"
  have r: "GetOrCreateSession env db c prov upstream = (?db1, Inr (sid, lastSeq s + 1, False))"
    using c f ne mo dom
    by (simp add: GetOrCreateSession_def getOrCreateByClientSessionID_def FindByClientSessionID_def
        GetSessionWithClientID_def UpdateSessionSeq_def Let_def)
  have keys: "map fst ?db1 = map fst db" by (induction db) auto
  have wf1: "wellFormedDB ?db1"
    unfolding wellFormedDB_def keys using wf [unfolded wellFormedDB_def] .
  have f1: "find (\<lambda>row. sessionClientID (snd row) = c) ?db1 = Some (sid, s\<lparr>lastSeq := lastSeq s + 1\<rparr>)"
    using f wf unfolding wellFormedDB_def
  proof (induction db)
    case Nil
    then show ?case by simp
  next
    case (Cons row db)
    show ?case
    proof (cases "sessionClientID (snd row) = c")
      case True
      with Cons.prems have "row = (sid, s)" by simp
      with True show ?thesis by simp
    next
      case False
      with Cons.prems have ff: "find (\<lambda>row. sessionClientID (snd row) = c) db = Some (sid, s)"
        and d: "distinct (map fst db)" by auto
      from Cons.IH [OF ff d] False show ?thesis by auto
    qed
  qed
  from r wf1 f1 show ?thesis by auto
qed

text \<open>
  The first request of a client session (no row has its identifier; the directory is
  made; the drawn session identifier is new) gets 1 and is new.
\<close>

lemma new_client_session:
  assumes wf: "wellFormedDB db" and c: "c \<noteq> []"
    and f: "find (\<lambda>row. sessionClientID (snd row) = c) db = None"
    and mk: "mkdirErr env = None"
    and fresh: "newSessionID env \<notin> fst ` set db"
  shows "\<exists>db1 s1. GetOrCreateSession env db c prov upstream = (db1, Inr (newSessionID env, 1, True)) \<and>
     wellFormedDB db1 \<and>
     find (\<lambda>row. sessionClientID (snd row) = c) db1 = Some (newSessionID env, s1) \<and> lastSeq s1 = 1"
proof -
  let ?s1 = "\<lparr>sessionClientID = c, sessionProvider = prov, sessionUpstream = upstream, lastSeq = 1,
     filePath = sessionFilePath upstream (dateStr env) (newSessionID env)\<rparr>"
  let ?db1 = "db @ [(newSessionID env, ?s1)]"
  have r: "GetOrCreateSession env db c prov upstream = (?db1, Inr (newSessionID env, 1, True))"
    using c f mk fresh
    by (simp add: GetOrCreateSession_def getOrCreateByClientSessionID_def FindByClientSessionID_def
        createNewSessionWithClientID_def CreateSessionWithClientID_def Let_def)
  have wf1: "wellFormedDB ?db1" using wf fresh by (simp add: wellFormedDB_def)
  have f1: "find (\<lambda>row. sessionClientID (snd row) = c) ?db1 = Some (newSessionID env, ?s1)"
    using f by (induction db) (auto split: if_splits)
  from r wf1 f1 show ?thesis by auto
qed

text \<open>
  A request without client session identifier starts a session of its own, with
  sequence number 1.
\<close>

lemma new_anonymous_session:
  assumes mk: "mkdirErr env = None" and fresh: "newSessionID env \<notin> fst ` set db"
  shows "snd (GetOrCreateSession env db [] prov upstream) = Inr (newSessionID env, 1, True)"
  using mk fresh
  by (simp add: GetOrCreateSession_def createNewSession_def CreateSession_def
      CreateSessionWithClientID_def Let_def)

text \<open>
  Successive requests of a known client session are numbered \<open>last_seq + 1\<close>,
  \<open>last_seq + 2\<close>, ...
\<close>

lemma requestSeqs_continue:
  assumes wf: "wellFormedDB db" and c: "c \<noteq> []"
    and f: "find (\<lambda>row. sessionClientID (snd row) = c) db = Some (sid, s)"
    and ne: "sid \<noteq> []"
  shows "requestSeqs db c prov upstream envs =
     map (\<lambda>i. Some (lastSeq s + of_nat (Suc i))) [0..<length envs]"
  using wf f
proof (induction envs arbitrary: db s)
  case Nil
  then show ?case by simp
next
  case (Cons env envs)
  from continue_session [OF Cons.prems(1) c Cons.prems(2) ne, of env prov upstream]
  obtain db1 s1 where r: "GetOrCreateSession env db c prov upstream = (db1, Inr (sid, lastSeq s + 1, False))"
    and wf1: "wellFormedDB db1"
    and f1: "find (\<lambda>row. sessionClientID (snd row) = c) db1 = Some (sid, s1)"
    and l1: "lastSeq s1 = lastSeq s + 1" by blast
  have u: "[0..<length (env # envs)] = 0 # map Suc [0..<length envs]"
    by (simp add: upt_conv_Cons map_Suc_upt del: upt_Suc)
  show ?case
    unfolding u using r Cons.IH [OF wf1 f1] l1 by (simp add: comp_def add.assoc)
qed

text \<open>
  So the requests of a new client session are numbered 1, 2, 3, ...
\<close>

lemma requestSeqs_from_one:
  assumes wf: "wellFormedDB db" and c: "c \<noteq> []"
    and f: "find (\<lambda>row. sessionClientID (snd row) = c) db = None"
    and mk: "mkdirErr env = None"
    and fresh: "newSessionID env \<notin> fst ` set db"
    and ne: "newSessionID env \<noteq> []"
  shows "requestSeqs db c prov upstream (env # envs) =
     map (\<lambda>i. Some (of_nat (Suc i))) [0..<Suc (length envs)]"
proof -
  from new_client_session [OF wf c f mk fresh, of prov upstream]
  obtain db1 s1 where r: "GetOrCreateSession env db c prov upstream = (db1, Inr (newSessionID env, 1, True))"
    and wf1: "wellFormedDB db1"
    and f1: "find (\<lambda>row. sessionClientID (snd row) = c) db1 = Some (newSessionID env, s1)"
    and l1: "lastSeq s1 = 1" by blast
  have u: "[0..<Suc (length envs)] = 0 # map Suc [0..<length envs]"
    by (simp add: upt_conv_Cons map_Suc_upt del: upt_Suc)
  show ?thesis
    unfolding u using r requestSeqs_continue [OF wf1 c f1 ne, of prov upstream envs] l1
    by (simp add: comp_def)
qed

lemma requestSeqs_example:
  "requestSeqs [] ''abc'' ''anthropic'' ''api.anthropic.com''
     [exampleSessionEnv, exampleSessionEnv, exampleSessionEnv] = [Some 1, Some 2, Some 3]"
  by code_simp

end
